theory Spec2Isabelle
  imports
    Main
    "HOL-Library.Sublist"
    "HOL-Library.Char_ord"
    "HOL-Library.List_Lexorder"
begin

section \<open>pptx\_to\_markdown: the single-file conversion pipeline\<close>

text \<open>
  The program is orchestration over a file system, a zip archive and two subprocesses.
  The embedding makes each of them explicit:
  \<^item> the file system is a finite table from paths to nodes, threaded through every call;
  \<^item> what \<^verbatim>\<open>zipfile.ZipFile(pptx_path)\<close> yields is a parameter \<open>zipfile\<close>: an
    exception, or the archive's member list;
  \<^item> what \<^verbatim>\<open>python -m markitdown\<close> and \<^verbatim>\<open>date\<close> do is a parameter each: the
    process could not be started, or it exited with a code, a standard output and a
    standard error;
  \<^item> every Python exception is a value of \<open>exn\<close>; a call that may raise returns
    \<open>exn + 'a\<close>, and a loop that may raise half way returns the exception together
    with the state it left behind;
  \<^item> \<^verbatim>\<open>print\<close> appends a message to the \<open>stdout\<close> field of the state.

  Text is a \<open>string\<close> holding the UTF-8 bytes of the Python \<^verbatim>\<open>str\<close>; writing a file
  with \<^verbatim>\<open>encoding='utf-8'\<close> therefore stores the string as it is. File names and
  process output are taken to be text that UTF-8 encodes: a name that is not (a lone
  surrogate from the file system) makes \<^verbatim>\<open>write\<close> raise and is outside the model. Paths are lists of
  components from a fixed root (POSIX flavour, no permissions, no symbolic links).
\<close>

subsection \<open>Paths (pathlib)\<close>

type_synonym path = "string list"

text \<open>\<^verbatim>\<open>Path.name\<close>: the final component, empty for the root.\<close>

definition name :: "path \<Rightarrow> string" where
  "name p = (if p = [] then [] else last p)"

text \<open>
  \<^verbatim>\<open>i = name.rfind('.')\<close>, as a number of characters before the last dot; only used
  when the name has a dot.
\<close>

definition rfind_dot :: "string \<Rightarrow> nat" where
  "rfind_dot s = length s - length (takeWhile (\<lambda>c. c \<noteq> CHR ''.'') (rev s)) - 1"

text \<open>
  \<^verbatim>\<open>PurePath.suffix\<close> and \<^verbatim>\<open>PurePath.stem\<close>:
  \<^verbatim>\<open>if 0 < i < len(name) - 1: return name[i:] else: return ''\<close> (and \<^verbatim>\<open>name[:i]\<close>,
  else \<^verbatim>\<open>name\<close>, for the stem).
\<close>

definition has_suffix :: "string \<Rightarrow> bool" where
  "has_suffix s \<longleftrightarrow> CHR ''.'' \<in> set s \<and> 0 < rfind_dot s \<and> rfind_dot s < length s - 1"

definition suffix_of :: "path \<Rightarrow> string" where
  "suffix_of p = (if has_suffix (name p) then drop (rfind_dot (name p)) (name p) else [])"

definition stem :: "path \<Rightarrow> string" where
  "stem p = (if has_suffix (name p) then take (rfind_dot (name p)) (name p) else name p)"

text \<open>
  \<^verbatim>\<open>str.lower()\<close> on the ASCII letters. No character outside ASCII lower-cases to a
  letter of the four allowed extensions, so membership in the allow-list is decided
  by the ASCII letters alone.
\<close>

definition lower_char :: "char \<Rightarrow> char" where
  "lower_char c =
     (case map_of (zip ''ABCDEFGHIJKLMNOPQRSTUVWXYZ'' ''abcdefghijklmnopqrstuvwxyz'') c of
        None \<Rightarrow> c | Some l \<Rightarrow> l)"

definition lower :: "string \<Rightarrow> string" where
  "lower s = map lower_char s"

text \<open>\<^verbatim>\<open>img_file.suffix.lower() in ['.png', '.jpg', '.jpeg', '.gif']\<close>\<close>

definition image_suffix :: "path \<Rightarrow> bool" where
  "image_suffix p \<longleftrightarrow> lower (suffix_of p) \<in> set [''.png'', ''.jpg'', ''.jpeg'', ''.gif'']"

subsection \<open>Exceptions, file system, state\<close>

datatype exn =
    BadZipFile
  | FileNotFoundError
  | NotADirectoryError
  | IsADirectoryError
  | FileExistsError
  | ValueError

datatype node = File string | Dir

type_synonym fs = "(path \<times> node) list"

datatype msg =
    Processing string
  | Warning exn
  | FoundImages nat string
  | Created string
  | Size nat
  | ErrorConverting int
  | Stderr string

record world =
  files :: fs
  stdout :: "msg list"

definition print :: "msg \<Rightarrow> world \<Rightarrow> world" where
  "print m w = w\<lparr>stdout := stdout w @ [m]\<rparr>"

text \<open>The root always exists and is a directory.\<close>

definition stat :: "fs \<Rightarrow> path \<Rightarrow> node option" where
  "stat t p = (if p = [] then Some Dir else map_of t p)"

definition path_exists :: "fs \<Rightarrow> path \<Rightarrow> bool" where
  "path_exists t p \<longleftrightarrow> stat t p \<noteq> None"

definition is_dir :: "fs \<Rightarrow> path \<Rightarrow> bool" where
  "is_dir t p \<longleftrightarrow> stat t p = Some Dir"

definition put :: "path \<Rightarrow> node \<Rightarrow> fs \<Rightarrow> fs" where
  "put p n t = (p, n) # filter (\<lambda>e. fst e \<noteq> p) t"

text \<open>The names directly inside a directory, in the order of the table.\<close>

definition children :: "fs \<Rightarrow> path \<Rightarrow> string list" where
  "children t d = remdups (map (\<lambda>e. last (fst e)) (filter (\<lambda>e. fst e \<noteq> [] \<and> butlast (fst e) = d) t))"

text \<open>\<^verbatim>\<open>Path.iterdir()\<close>: raises unless the path is a directory.\<close>

definition iterdir :: "fs \<Rightarrow> path \<Rightarrow> exn + path list" where
  "iterdir t d =
     (case stat t d of
        None \<Rightarrow> Inl FileNotFoundError
      | Some (File c) \<Rightarrow> Inl NotADirectoryError
      | Some Dir \<Rightarrow> Inr (map (\<lambda>n. d @ [n]) (children t d)))"

text \<open>\<^verbatim>\<open>open(p, 'w')\<close> followed by one \<^verbatim>\<open>write\<close>: creates or truncates a regular file.\<close>

definition write_file :: "path \<Rightarrow> string \<Rightarrow> fs \<Rightarrow> exn + fs" where
  "write_file p c t =
     (if is_dir t p then Inl IsADirectoryError
      else case stat t (butlast p) of
             None \<Rightarrow> Inl FileNotFoundError
           | Some (File x) \<Rightarrow> Inl NotADirectoryError
           | Some Dir \<Rightarrow> Inr (put p (File c) t))"

text \<open>\<^verbatim>\<open>Path.mkdir(exist_ok=True)\<close>, without \<^verbatim>\<open>parents\<close>.\<close>

definition mkdir_exist_ok :: "path \<Rightarrow> fs \<Rightarrow> exn + fs" where
  "mkdir_exist_ok p t =
     (case stat t p of
        Some Dir \<Rightarrow> Inr t
      | Some (File c) \<Rightarrow> Inl FileExistsError
      | None \<Rightarrow>
          (case stat t (butlast p) of
             None \<Rightarrow> Inl FileNotFoundError
           | Some (File x) \<Rightarrow> Inl NotADirectoryError
           | Some Dir \<Rightarrow> Inr (put p Dir t)))"

text \<open>
  \<^verbatim>\<open>os.makedirs(p, exist_ok=True)\<close>: every missing ancestor is created, from the top;
  a regular file on the way raises.
\<close>

fun mkdirs :: "path list \<Rightarrow> fs \<Rightarrow> exn + fs" where
  "mkdirs [] t = Inr t"
| "mkdirs (q # qs) t =
     (case stat t q of
        Some Dir \<Rightarrow> mkdirs qs t
      | Some (File c) \<Rightarrow> Inl (if qs = [] then FileExistsError else NotADirectoryError)
      | None \<Rightarrow> mkdirs qs (put q Dir t))"

definition makedirs :: "path \<Rightarrow> fs \<Rightarrow> exn + fs" where
  "makedirs p t = mkdirs (tl (prefixes p)) t"

text \<open>
  \<^verbatim>\<open>shutil.rmtree(d, ignore_errors=True)\<close>: removes a directory and all below it; on
  anything that is not a directory the error is swallowed and nothing changes.
\<close>

definition rmtree_ignore_errors :: "path \<Rightarrow> fs \<Rightarrow> fs" where
  "rmtree_ignore_errors d t = (if is_dir t d then filter (\<lambda>e. \<not> prefix d (fst e)) t else t)"

text \<open>
  \<^verbatim>\<open>shutil.copy2(src, dst)\<close>: a destination that is a directory receives the file
  under the source's name; the source is opened first. File metadata is not modelled.
\<close>

definition copy2 :: "path \<Rightarrow> path \<Rightarrow> fs \<Rightarrow> exn + fs" where
  "copy2 src dst t =
     (let dst' = (if is_dir t dst then dst @ [name src] else dst)
      in case stat t src of
           None \<Rightarrow> Inl FileNotFoundError
         | Some Dir \<Rightarrow> Inl IsADirectoryError
         | Some (File c) \<Rightarrow> write_file dst' c t)"

subsection \<open>Archives (zipfile)\<close>

text \<open>
  A member is a regular file with its data, a directory entry, or a member that cannot
  be opened (damaged local header, encrypted): \<^verbatim>\<open>ZipFile.open\<close> raises on it before
  the target file is created. Member paths are the sanitised, relative component lists
  that \<^verbatim>\<open>_extract_member\<close> computes.
\<close>

datatype zip_member = ZFile path string | ZDir path | ZBad path

fun member_path :: "zip_member \<Rightarrow> path" where
  "member_path (ZFile p c) = p"
| "member_path (ZDir p) = p"
| "member_path (ZBad p) = p"

fun is_zdir :: "zip_member \<Rightarrow> bool" where
  "is_zdir (ZDir p) = True"
| "is_zdir m = False"

text \<open>
  \<^verbatim>\<open>ZipFile._extract_member\<close>: create the upper directories when they are missing, then
  make the directory (an existing one is kept) or write the file; a regular file
  with an empty name raises. The state is returned also when it raises.
\<close>

definition extract_member :: "path \<Rightarrow> zip_member \<Rightarrow> fs \<Rightarrow> exn option \<times> fs" where
  "extract_member base m t =
     (let target = base @ member_path m; upperdirs = butlast target
      in if member_path m = [] \<and> \<not> is_zdir m then (Some ValueError, t)
         else case (if path_exists t upperdirs then Inr t else makedirs upperdirs t) of
                Inl e \<Rightarrow> (Some e, t)
              | Inr t1 \<Rightarrow>
                  (case m of
                     ZDir p \<Rightarrow>
                       (case mkdir_exist_ok target t1 of
                          Inl e \<Rightarrow> (Some e, t1) | Inr t2 \<Rightarrow> (None, t2))
                   | ZBad p \<Rightarrow> (Some BadZipFile, t1)
                   | ZFile p c \<Rightarrow>
                       (case write_file target c t1 of
                          Inl e \<Rightarrow> (Some e, t1) | Inr t2 \<Rightarrow> (None, t2))))"

text \<open>\<^verbatim>\<open>ZipFile.extractall(base)\<close>: the members in order, stopping at the first that raises.\<close>

fun extractall :: "path \<Rightarrow> zip_member list \<Rightarrow> fs \<Rightarrow> exn option \<times> fs" where
  "extractall base [] t = (None, t)"
| "extractall base (m # ms) t =
     (case extract_member base m t of
        (Some e, t1) \<Rightarrow> (Some e, t1)
      | (None, t1) \<Rightarrow> extractall base ms t1)"

subsection \<open>Subprocesses\<close>

datatype proc = Exited int string string | NotStarted exn

text \<open>
  \<^verbatim>\<open>str.strip()\<close> removes from both ends every character for which \<^verbatim>\<open>str.isspace()\<close>
  holds: U+0009 to U+000D, U+001C to U+0020, U+0085, U+00A0, U+1680, U+2000 to U+200A,
  U+2028, U+2029, U+202F, U+205F and U+3000. On the UTF-8 bytes of a text these are the
  byte sequences below; in well-formed UTF-8 such a sequence at either end of the text
  is that character.
\<close>

definition white_space :: "string list" where
  "white_space =
     map (\<lambda>c. [c]) [CHR 0x09, CHR 0x0A, CHR 0x0B, CHR 0x0C, CHR 0x0D,
                    CHR 0x1C, CHR 0x1D, CHR 0x1E, CHR 0x1F, CHR 0x20]
     @ [[CHR 0xC2, CHR 0x85], [CHR 0xC2, CHR 0xA0], [CHR 0xE1, CHR 0x9A, CHR 0x80]]
     @ map (\<lambda>c. [CHR 0xE2, CHR 0x80, c])
         [CHR 0x80, CHR 0x81, CHR 0x82, CHR 0x83, CHR 0x84, CHR 0x85, CHR 0x86, CHR 0x87,
          CHR 0x88, CHR 0x89, CHR 0x8A, CHR 0xA8, CHR 0xA9, CHR 0xAF]
     @ [[CHR 0xE2, CHR 0x81, CHR 0x9F], [CHR 0xE3, CHR 0x80, CHR 0x80]]"

text \<open>Removing, as long as there is one, a leading sequence out of a list.\<close>

function strip_left :: "string list \<Rightarrow> string \<Rightarrow> string" where
  "strip_left ws s =
     (case find (\<lambda>x. x \<noteq> [] \<and> prefix x s) ws of
        None \<Rightarrow> s
      | Some x \<Rightarrow> strip_left ws (drop (length x) s))"
  by pat_completeness auto
termination
proof (relation "measure (\<lambda>(ws, s). length s)")
  show "wf (measure (\<lambda>(ws, s). length s))" by simp
next
  fix ws :: "string list" and s x :: string
  assume "find (\<lambda>x. x \<noteq> [] \<and> prefix x s) ws = Some x"
  then have "x \<noteq> []" and "prefix x s"
    by (auto simp: find_Some_iff)
  then have "0 < length x" and "length x \<le> length s"
    by (auto simp: prefix_length_le)
  then have "length s - length x < length s" by arith
  then show "((ws, drop (length x) s), (ws, s)) \<in> measure (\<lambda>(ws, s). length s)"
    by simp
qed

declare strip_left.simps [simp del]

definition strip :: "string \<Rightarrow> string" where
  "strip s = rev (strip_left (map rev white_space) (rev (strip_left white_space s)))"

subsection \<open>extract\_images\_from\_pptx\<close>

definition temp_extract_of :: "path \<Rightarrow> path" where
  "temp_extract_of output_dir = output_dir @ [''temp_extract'']"

definition media_dir_of :: "path \<Rightarrow> path" where
  "media_dir_of output_dir = temp_extract_of output_dir @ [''ppt'', ''media'']"

text \<open>
  Returns the images, the reference to the extraction directory (\<open>None\<close> for Python's
  \<^verbatim>\<open>None\<close>) and the state. Every exception raised inside the \<^verbatim>\<open>try\<close> ends in the
  \<^verbatim>\<open>except Exception\<close> branch: a warning is printed and \<^verbatim>\<open>([], None)\<close> returned, with
  the file system as the failed step left it.
\<close>

definition extract_images_from_pptx ::
  "(path \<Rightarrow> exn + zip_member list) \<Rightarrow> world \<Rightarrow> path \<Rightarrow> path \<Rightarrow> path list \<times> path option \<times> world" where
  "extract_images_from_pptx zipfile w pptx_path output_dir =
     (let temp_extract = temp_extract_of output_dir
      in case zipfile pptx_path of
           Inl e \<Rightarrow> ([], None, print (Warning e) w)
         | Inr members \<Rightarrow>
             (case extractall temp_extract members (files w) of
                (Some e, t1) \<Rightarrow> ([], None, print (Warning e) (w\<lparr>files := t1\<rparr>))
              | (None, t1) \<Rightarrow>
                  (let media_dir = temp_extract @ [''ppt'', ''media''];
                       w1 = w\<lparr>files := t1\<rparr>
                   in if path_exists t1 media_dir then
                        (case iterdir t1 media_dir of
                           Inl e \<Rightarrow> ([], None, print (Warning e) w1)
                         | Inr entries \<Rightarrow> (filter image_suffix (sort entries), Some temp_extract, w1))
                      else ([], Some temp_extract, w1))))"

subsection \<open>convert\_pptx\_to\_markdown\<close>

definition newline :: string where
  "newline = [CHR 0x0A]"

definition header :: "path \<Rightarrow> string \<Rightarrow> string" where
  "header pptx_path converted =
     ''# '' @ stem pptx_path @ newline @ newline
     @ ''**Source File:** '' @ name pptx_path @ ''  '' @ newline
     @ ''**Converted:** '' @ converted @ newline @ newline
     @ ''---'' @ newline @ newline"

definition md_path_of :: "path \<Rightarrow> path \<Rightarrow> path" where
  "md_path_of pptx_path output_dir = output_dir @ [stem pptx_path @ ''.md'']"

definition img_dir_of :: "path \<Rightarrow> path \<Rightarrow> path" where
  "img_dir_of pptx_path output_dir = output_dir @ [stem pptx_path @ ''_images'']"

text \<open>The loop \<^verbatim>\<open>for img in images: shutil.copy2(img, img_dir / img.name)\<close>.\<close>

fun copy_images :: "path \<Rightarrow> path list \<Rightarrow> fs \<Rightarrow> exn option \<times> fs" where
  "copy_images img_dir [] t = (None, t)"
| "copy_images img_dir (img # imgs) t =
     (case copy2 img (img_dir @ [name img]) t of
        Inl e \<Rightarrow> (Some e, t)
      | Inr t1 \<Rightarrow> copy_images img_dir imgs t1)"

text \<open>
  Lines 53 to 63, which stand before the \<^verbatim>\<open>try\<close>: an exception here leaves the
  function at once, and the \<^verbatim>\<open>finally\<close> block is not entered.
\<close>

definition copy_step :: "world \<Rightarrow> path \<Rightarrow> path \<Rightarrow> bool \<Rightarrow> path list \<Rightarrow> exn option \<times> world" where
  "copy_step w pptx_path output_dir keep_images images =
     (if images \<noteq> [] \<and> keep_images then
        (let img_dir = img_dir_of pptx_path output_dir
         in case mkdir_exist_ok img_dir (files w) of
              Inl e \<Rightarrow> (Some e, w)
            | Inr t1 \<Rightarrow>
                (let w1 = print (FoundImages (length images) (name img_dir)) (w\<lparr>files := t1\<rparr>)
                 in case copy_images img_dir images (files w1) of
                      (r, t2) \<Rightarrow> (r, w1\<lparr>files := t2\<rparr>)))
      else (None, w))"

text \<open>
  The body of the \<^verbatim>\<open>try\<close> with its \<^verbatim>\<open>except subprocess.CalledProcessError\<close>:
  \<open>Inr True\<close> and \<open>Inr False\<close> are the two returns, \<open>Inl e\<close> an exception that
  the handler does not catch.
\<close>

definition convert_step ::
  "(path \<Rightarrow> proc) \<Rightarrow> proc \<Rightarrow> world \<Rightarrow> path \<Rightarrow> path \<Rightarrow> (exn + bool) \<times> world" where
  "convert_step markitdown date w pptx_path output_dir =
     (case markitdown pptx_path of
        NotStarted e \<Rightarrow> (Inl e, w)
      | Exited code out err \<Rightarrow>
          if code \<noteq> 0 then (Inr False, print (Stderr err) (print (ErrorConverting code) w))
          else
            (case date of
               NotStarted e \<Rightarrow> (Inl e, w)
             | Exited dcode dout derr \<Rightarrow>
                 (let content = header pptx_path (strip dout) @ out
                  in case write_file (md_path_of pptx_path output_dir) content (files w) of
                       Inl e \<Rightarrow> (Inl e, w)
                     | Inr t1 \<Rightarrow>
                         (Inr True,
                          print (Size (length content))
                            (print (Created (stem pptx_path @ ''.md'')) (w\<lparr>files := t1\<rparr>))))))"

text \<open>The \<^verbatim>\<open>finally\<close> block.\<close>

definition cleanup :: "path option \<Rightarrow> world \<Rightarrow> world" where
  "cleanup temp_extract w =
     (case temp_extract of
        None \<Rightarrow> w
      | Some d \<Rightarrow> if path_exists (files w) d then w\<lparr>files := rmtree_ignore_errors d (files w)\<rparr> else w)"

definition convert_pptx_to_markdown ::
  "(path \<Rightarrow> exn + zip_member list) \<Rightarrow> (path \<Rightarrow> proc) \<Rightarrow> proc \<Rightarrow>
     world \<Rightarrow> path \<Rightarrow> path \<Rightarrow> bool \<Rightarrow> (exn + bool) \<times> world" where
  "convert_pptx_to_markdown zipfile markitdown date w pptx_path output_dir keep_images =
     (let w0 = print (Processing (name pptx_path)) w
      in case extract_images_from_pptx zipfile w0 pptx_path output_dir of
           (images, temp_extract, w1) \<Rightarrow>
             (case copy_step w1 pptx_path output_dir keep_images images of
                (Some e, w2) \<Rightarrow> (Inl e, w2)
              | (None, w2) \<Rightarrow>
                  (case convert_step markitdown date w2 pptx_path output_dir of
                     (r, w3) \<Rightarrow> (r, cleanup temp_extract w3))))"

text \<open>
  The converter is reached when the lines before the \<^verbatim>\<open>try\<close> (extraction, then the
  copy of the images) raise nothing.
\<close>

definition reaches_converter ::
  "(path \<Rightarrow> exn + zip_member list) \<Rightarrow> world \<Rightarrow> path \<Rightarrow> path \<Rightarrow> bool \<Rightarrow> bool" where
  "reaches_converter zipfile w pptx_path output_dir keep_images =
     (case extract_images_from_pptx zipfile (print (Processing (name pptx_path)) w) pptx_path output_dir of
        (images, temp_extract, w1) \<Rightarrow>
          fst (copy_step w1 pptx_path output_dir keep_images images) = None)"

text \<open>Nothing at or below a path: how a directory that is not there shows in the table.\<close>

definition absent :: "fs \<Rightarrow> path \<Rightarrow> bool" where
  "absent t d \<longleftrightarrow> list_all (\<lambda>e. \<not> prefix d (fst e)) t"

text \<open>
  Unpacking fails when the archive cannot be opened, when a member cannot be unpacked,
  or when the media path cannot be listed: the three places of the \<^verbatim>\<open>try\<close> block that
  raise.
\<close>

definition unpacking_fails ::
  "(path \<Rightarrow> exn + zip_member list) \<Rightarrow> fs \<Rightarrow> path \<Rightarrow> path \<Rightarrow> exn \<Rightarrow> bool" where
  "unpacking_fails zipfile t pptx_path output_dir e =
     (case zipfile pptx_path of
        Inl e' \<Rightarrow> e' = e
      | Inr members \<Rightarrow>
          (case extractall (temp_extract_of output_dir) members t of
             (Some e', t1) \<Rightarrow> e' = e
           | (None, t1) \<Rightarrow>
               path_exists t1 (media_dir_of output_dir) \<and> iterdir t1 (media_dir_of output_dir) = Inl e))"

subsection \<open>The allow-list in the specification's words\<close>

text \<open>
  Not taken from the code: the specification's "extension png, jpg, jpeg or gif, matched
  case-insensitively", written out on its own so that the code's test can be compared
  with it. A name has an allowed extension when it ends in a dot and one of the four
  words, letter by letter in either case, with at least one character before the dot.
\<close>

definition same_letter :: "char \<Rightarrow> char \<Rightarrow> bool" where
  "same_letter c l \<longleftrightarrow> c = l \<or> (l, c) \<in> set (zip ''pngjeif'' ''PNGJEIF'')"

definition allowed_extension :: "string \<Rightarrow> bool" where
  "allowed_extension n \<longleftrightarrow>
     list_ex (\<lambda>ext. length ext + 1 < length n
                  \<and> list_all2 same_letter (drop (length n - (length ext + 1)) n) (CHR ''.'' # ext))
       [''png'', ''jpg'', ''jpeg'', ''gif'']"

subsection \<open>Example inputs\<close>

text \<open>An output directory that exists and is empty; nothing printed yet.\<close>

definition disk0 :: world where
  "disk0 = \<lparr>files = [([''out''], Dir)], stdout = []\<rparr>"

text \<open>The archive of the specification's example: two images and one other file.\<close>

definition deck_zip :: "path \<Rightarrow> exn + zip_member list" where
  "deck_zip p = Inr [ZFile [''ppt'', ''media'', ''b.jpg''] ''B'',
                     ZFile [''ppt'', ''media'', ''a.png''] ''A'',
                     ZFile [''ppt'', ''media'', ''notes.xml''] ''N'']"

text \<open>An archive whose second member cannot be opened.\<close>

definition damaged_zip :: "path \<Rightarrow> exn + zip_member list" where
  "damaged_zip p = Inr [ZFile [''ppt'', ''slides'', ''slide1.xml''] ''S'',
                        ZBad [''ppt'', ''media'', ''image1.png'']]"

text \<open>An archive without a media folder.\<close>

definition plain_zip :: "path \<Rightarrow> exn + zip_member list" where
  "plain_zip p = Inr [ZFile [''ppt'', ''slides'', ''slide1.xml''] ''S'']"

text \<open>An archive whose media folder holds a directory named like an image.\<close>

definition nested_zip :: "path \<Rightarrow> exn + zip_member list" where
  "nested_zip p = Inr [ZFile [''ppt'', ''media'', ''a.png''] ''A'',
                       ZFile [''ppt'', ''media'', ''x.png'', ''y.txt''] ''Y'',
                       ZFile [''ppt'', ''media'', ''sub'', ''z.png''] ''Z'']"


text \<open>
  An archive whose media folder holds files of every allowed extension in mixed case,
  and files that only look alike.
\<close>

definition mixed_zip :: "path \<Rightarrow> exn + zip_member list" where
  "mixed_zip p = Inr [ZFile [''ppt'', ''media'', ''d.jpg''] ''D'',
                      ZFile [''ppt'', ''media'', ''b.jpeg''] ''B'',
                      ZFile [''ppt'', ''media'', ''notes.xml''] ''N'',
                      ZFile [''ppt'', ''media'', ''c.Gif''] ''C'',
                      ZFile [''ppt'', ''media'', ''A.PNG''] ''A'',
                      ZFile [''ppt'', ''media'', ''e.pngx''] ''E'',
                      ZFile [''ppt'', ''media'', ''.png''] ''H'',
                      ZFile [''ppt'', ''media'', ''f.png.bak''] ''F'',
                      ZFile [''ppt'', ''media'', ''gif''] ''G'']"

text \<open>An archive whose image unpacks and whose second member cannot be opened.\<close>

definition leaky_zip :: "path \<Rightarrow> exn + zip_member list" where
  "leaky_zip p = Inr [ZFile [''ppt'', ''media'', ''old.png''] ''O'',
                      ZBad [''ppt'', ''slides'', ''slide1.xml'']]"

text \<open>An output directory in which a directory stands where the document goes.\<close>

definition blocked_disk :: world where
  "blocked_disk = \<lparr>files = [([''out''], Dir), ([''out'', ''deck.md''], Dir)], stdout = []\<rparr>"

text \<open>A clock whose output is padded with a no-break space and an em space.\<close>

definition padded_clock :: proc where
  "padded_clock =
     Exited 0 ([CHR 0xC2, CHR 0xA0] @ ''2024-01-01 10:00:00''
               @ [CHR 0xE2, CHR 0x80, CHR 0x83] @ newline) []"

definition clock :: proc where
  "clock = Exited 0 (''2024-01-01 10:00:00'' @ newline) []"

definition converter_ok :: "path \<Rightarrow> proc" where
  "converter_ok p = Exited 0 ''body'' []"

definition converter_fails :: "path \<Rightarrow> proc" where
  "converter_fails p = Exited 1 [] ''boom''"

section \<open>Properties\<close>

subsection \<open>What each file-system operation leaves alone\<close>

lemma stat_put_other: "q \<noteq> p \<Longrightarrow> stat (put p n t) q = stat t q"
  by (induction t) (auto simp: stat_def put_def)

lemma stat_put_same: "p \<noteq> [] \<Longrightarrow> stat (put p n t) p = Some n"
  by (simp add: stat_def put_def)

lemma write_file_other:
  "write_file p c t = Inr t' \<Longrightarrow> q \<noteq> p \<Longrightarrow> stat t' q = stat t q"
  by (auto simp: write_file_def stat_put_other split: if_splits option.splits node.splits)

lemma write_file_same:
  "write_file p c t = Inr t' \<Longrightarrow> stat t' p = Some (File c)"
  by (auto simp: write_file_def is_dir_def stat_put_same stat_def put_def split: if_splits option.splits node.splits)

lemma write_file_not_dir:
  "write_file p c t = Inr t' \<Longrightarrow> \<not> is_dir t p"
  by (auto simp: write_file_def split: if_splits)

lemma mkdir_exist_ok_other:
  "mkdir_exist_ok p t = Inr t' \<Longrightarrow> q \<noteq> p \<Longrightarrow> stat t' q = stat t q"
  by (auto simp: mkdir_exist_ok_def stat_put_other split: option.splits node.splits)

lemma mkdir_exist_ok_same:
  "mkdir_exist_ok p t = Inr t' \<Longrightarrow> is_dir t' p"
  by (auto simp: mkdir_exist_ok_def is_dir_def stat_def put_def split: option.splits node.splits if_splits)

lemma mkdirs_other:
  "mkdirs qs t = Inr t' \<Longrightarrow> q \<notin> set qs \<Longrightarrow> stat t' q = stat t q"
  by (induction qs arbitrary: t) (auto simp: stat_put_other split: option.splits node.splits)

lemma in_tl_prefixes: "q \<in> set (tl (prefixes p)) \<Longrightarrow> prefix q p"
  by (metis in_set_prefixes list.set_sel(2) prefixes_not_Nil)

lemma makedirs_other:
  "makedirs p t = Inr t' \<Longrightarrow> \<not> prefix q p \<Longrightarrow> stat t' q = stat t q"
  unfolding makedirs_def by (erule mkdirs_other) (auto dest: in_tl_prefixes)

lemma prefix_butlast: "prefix q (butlast p) \<Longrightarrow> prefix q p"
  using prefix_order.trans prefixeq_butlast by blast

lemma extract_member_other:
  assumes "extract_member base m t = (r, t')" and "\<not> prefix q (base @ member_path m)"
  shows "stat t' q = stat t q"
proof -
  have up: "\<not> prefix q (butlast (base @ member_path m))"
    using assms(2) prefix_butlast by blast
  have ne: "q \<noteq> base @ member_path m"
    using assms(2) by auto
  show ?thesis
    using assms(1) up ne
    by (auto simp: extract_member_def Let_def makedirs_other write_file_other mkdir_exist_ok_other
             split: if_splits sum.splits zip_member.splits)
qed

lemma extractall_other:
  "extractall base ms t = (r, t') \<Longrightarrow> \<forall>m\<in>set ms. \<not> prefix q (base @ member_path m)
     \<Longrightarrow> stat t' q = stat t q"
proof (induction ms arbitrary: t)
  case Nil
  then show ?case by simp
next
  case (Cons m ms)
  obtain r1 t1 where em: "extract_member base m t = (r1, t1)"
    by (cases "extract_member base m t")
  have s1: "stat t1 q = stat t q"
    using em Cons.prems(2) by (auto intro: extract_member_other)
  show ?case
  proof (cases r1)
    case None
    with em Cons.prems have "extractall base ms t1 = (r, t')" by simp
    with Cons.IH Cons.prems(2) have "stat t' q = stat t1 q" by simp
    with s1 show ?thesis by simp
  next
    case (Some e)
    with em Cons.prems have "t' = t1" by simp
    with s1 show ?thesis by simp
  qed
qed

lemma prefix_append_cases: "prefix q (b @ x) \<Longrightarrow> prefix q b \<or> prefix b q"
  by (metis prefix_append prefixI)

lemma extractall_unrelated:
  "extractall base ms t = (r, t') \<Longrightarrow> \<not> prefix q base \<Longrightarrow> \<not> prefix base q
     \<Longrightarrow> stat t' q = stat t q"
  by (erule extractall_other) (auto dest: prefix_append_cases)

lemma map_of_filter_fst:
  "map_of (filter (\<lambda>e. P (fst e)) t) q = (if P q then map_of t q else None)"
  by (induction t) auto

lemma rmtree_other:
  "\<not> prefix d q \<Longrightarrow> stat (rmtree_ignore_errors d t) q = stat t q"
  using map_of_filter_fst [of "\<lambda>p. \<not> prefix d p" t q]
  by (simp add: rmtree_ignore_errors_def stat_def)

lemma rmtree_gone:
  "is_dir t d \<Longrightarrow> d \<noteq> [] \<Longrightarrow> prefix d q \<Longrightarrow> \<not> path_exists (rmtree_ignore_errors d t) q"
  using map_of_filter_fst [of "\<lambda>p. \<not> prefix d p" t q]
  by (auto simp: rmtree_ignore_errors_def stat_def path_exists_def)

subsection \<open>What unpacking keeps and creates\<close>

lemma stat_put: "stat (put p n t) q = (if q = p \<and> p \<noteq> [] then Some n else stat t q)"
  using stat_put_other [of q p n t] stat_put_same [of p n t] by (auto simp: stat_def)

lemma put_keeps_dir: "is_dir t q \<Longrightarrow> \<not> (q = p \<and> n \<noteq> Dir) \<Longrightarrow> is_dir (put p n t) q"
  by (auto simp: is_dir_def stat_put)

lemma write_file_keeps_dir: "write_file p c t = Inr t' \<Longrightarrow> is_dir t q \<Longrightarrow> is_dir t' q"
  by (metis is_dir_def write_file_not_dir write_file_other)

lemma mkdir_exist_ok_keeps_dir: "mkdir_exist_ok p t = Inr t' \<Longrightarrow> is_dir t q \<Longrightarrow> is_dir t' q"
  by (metis is_dir_def mkdir_exist_ok_same mkdir_exist_ok_other)

lemma mkdirs_keeps_dir: "mkdirs qs t = Inr t' \<Longrightarrow> is_dir t q \<Longrightarrow> is_dir t' q"
  by (induction qs arbitrary: t) (auto simp: put_keeps_dir split: option.splits node.splits)

lemma makedirs_keeps_dir: "makedirs p t = Inr t' \<Longrightarrow> is_dir t q \<Longrightarrow> is_dir t' q"
  unfolding makedirs_def by (rule mkdirs_keeps_dir)

lemma extract_member_keeps_dir:
  "extract_member base m t = (r, t') \<Longrightarrow> is_dir t q \<Longrightarrow> is_dir t' q"
  by (auto simp: extract_member_def Let_def
           dest: makedirs_keeps_dir write_file_keeps_dir mkdir_exist_ok_keeps_dir
           split: if_splits sum.splits zip_member.splits)

lemma extractall_keeps_dir:
  "extractall base ms t = (r, t') \<Longrightarrow> is_dir t q \<Longrightarrow> is_dir t' q"
proof (induction ms arbitrary: t)
  case Nil
  then show ?case by simp
next
  case (Cons m ms)
  obtain r1 t1 where em: "extract_member base m t = (r1, t1)"
    by (cases "extract_member base m t")
  then have d1: "is_dir t1 q"
    using Cons.prems(2) by (rule extract_member_keeps_dir)
  show ?case
    using Cons.prems(1) em d1 Cons.IH by (cases r1) auto
qed

text \<open>Nothing that exists is removed by unpacking.\<close>

lemma put_keeps_exists: "path_exists t q \<Longrightarrow> path_exists (put p n t) q"
  by (auto simp: path_exists_def stat_put)

lemma write_file_keeps_exists: "write_file p c t = Inr t' \<Longrightarrow> path_exists t q \<Longrightarrow> path_exists t' q"
  by (auto simp: write_file_def put_keeps_exists split: if_splits option.splits node.splits)

lemma mkdir_exist_ok_keeps_exists:
  "mkdir_exist_ok p t = Inr t' \<Longrightarrow> path_exists t q \<Longrightarrow> path_exists t' q"
  by (auto simp: mkdir_exist_ok_def put_keeps_exists split: option.splits node.splits)

lemma mkdirs_keeps_exists: "mkdirs qs t = Inr t' \<Longrightarrow> path_exists t q \<Longrightarrow> path_exists t' q"
  by (induction qs arbitrary: t) (auto simp: put_keeps_exists split: option.splits node.splits)

lemma extract_member_keeps_exists:
  "extract_member base m t = (r, t') \<Longrightarrow> path_exists t q \<Longrightarrow> path_exists t' q"
  by (auto simp: extract_member_def Let_def makedirs_def
           dest: mkdirs_keeps_exists write_file_keeps_exists mkdir_exist_ok_keeps_exists
           split: if_splits sum.splits zip_member.splits)

lemma extractall_keeps_exists:
  "extractall base ms t = (r, t') \<Longrightarrow> path_exists t q \<Longrightarrow> path_exists t' q"
proof (induction ms arbitrary: t)
  case Nil
  then show ?case by simp
next
  case (Cons m ms)
  obtain r1 t1 where em: "extract_member base m t = (r1, t1)"
    by (cases "extract_member base m t")
  then have d1: "path_exists t1 q"
    using Cons.prems(2) by (rule extract_member_keeps_exists)
  show ?case
    using Cons.prems(1) em d1 Cons.IH by (cases r1) auto
qed

lemma extract_member_target:
  "extract_member base m t = (None, t') \<Longrightarrow> path_exists t' (base @ member_path m)"
  by (auto simp: extract_member_def Let_def path_exists_def is_dir_def
           dest: write_file_same mkdir_exist_ok_same
           split: if_splits sum.splits zip_member.splits)

lemma extractall_targets:
  "extractall base ms t = (None, t') \<Longrightarrow> m \<in> set ms \<Longrightarrow> path_exists t' (base @ member_path m)"
proof (induction ms arbitrary: t)
  case Nil
  then show ?case by simp
next
  case (Cons m' ms)
  obtain r1 t1 where em: "extract_member base m' t = (r1, t1)"
    by (cases "extract_member base m' t")
  with Cons.prems(1) have r1: "r1 = None" and rest: "extractall base ms t1 = (None, t')"
    by (cases r1; simp)+
  show ?case
  proof (cases "m = m'")
    case True
    with em r1 have "path_exists t1 (base @ member_path m)"
      by (simp add: extract_member_target)
    with rest show ?thesis by (rule extractall_keeps_exists)
  next
    case False
    with Cons.prems(2) have "m \<in> set ms" by simp
    with Cons.IH rest show ?thesis by blast
  qed
qed

subsection \<open>What each step of the pipeline leaves alone\<close>

lemma copy2_other:
  "copy2 src dst t = Inr t' \<Longrightarrow> \<not> prefix dst q \<Longrightarrow> stat t' q = stat t q"
  by (auto simp: copy2_def Let_def split: option.splits node.splits if_splits
           intro!: write_file_other)

lemma copy2_keeps_dir: "copy2 src dst t = Inr t' \<Longrightarrow> is_dir t q \<Longrightarrow> is_dir t' q"
  by (auto simp: copy2_def Let_def split: option.splits node.splits if_splits
           dest: write_file_keeps_dir)

lemma copy_images_other:
  "copy_images img_dir imgs t = (r, t') \<Longrightarrow> \<not> prefix img_dir q \<Longrightarrow> stat t' q = stat t q"
proof (induction imgs arbitrary: t)
  case Nil
  then show ?case by simp
next
  case (Cons img imgs)
  show ?case
  proof (cases "copy2 img (img_dir @ [name img]) t")
    case (Inl e)
    with Cons.prems show ?thesis by simp
  next
    case (Inr t1)
    have "\<not> prefix (img_dir @ [name img]) q"
      using Cons.prems(2) append_prefixD by blast
    with Inr have "stat t1 q = stat t q" by (rule copy2_other)
    moreover from Inr Cons.prems(1) have "copy_images img_dir imgs t1 = (r, t')" by simp
    ultimately show ?thesis using Cons.IH Cons.prems(2) by simp
  qed
qed

lemma copy_step_other:
  assumes "copy_step w pptx_path output_dir keep_images images = (r, w')"
    and "\<not> prefix (img_dir_of pptx_path output_dir) q"
  shows "stat (files w') q = stat (files w) q"
proof (cases "images \<noteq> [] \<and> keep_images")
  case False
  with assms(1) show ?thesis by (auto simp: copy_step_def)
next
  case True
  let ?d = "img_dir_of pptx_path output_dir"
  have ne: "q \<noteq> ?d" using assms(2) by auto
  show ?thesis
  proof (cases "mkdir_exist_ok ?d (files w)")
    case (Inl e)
    with True assms(1) show ?thesis by (auto simp: copy_step_def)
  next
    case (Inr t1)
    then have s1: "stat t1 q = stat (files w) q"
      using ne by (rule mkdir_exist_ok_other)
    obtain r2 t2 where ci: "copy_images ?d images t1 = (r2, t2)"
      by (cases "copy_images ?d images t1")
    then have s2: "stat t2 q = stat t1 q"
      using assms(2) by (rule copy_images_other)
    from True Inr ci assms(1) have "files w' = t2"
      by (auto simp: copy_step_def Let_def print_def)
    with s1 s2 show ?thesis by simp
  qed
qed

lemma convert_step_other:
  "convert_step markitdown date w pptx_path output_dir = (r, w')
     \<Longrightarrow> q \<noteq> md_path_of pptx_path output_dir \<Longrightarrow> stat (files w') q = stat (files w) q"
  by (auto simp: convert_step_def Let_def print_def write_file_other
           split: proc.splits if_splits sum.splits)

lemma convert_step_failed:
  "convert_step markitdown date w pptx_path output_dir = (r, w') \<Longrightarrow> r \<noteq> Inr True
     \<Longrightarrow> files w' = files w"
  by (auto simp: convert_step_def Let_def print_def split: proc.splits if_splits sum.splits)

lemma cleanup_other:
  "(\<And>d. temp_extract = Some d \<Longrightarrow> \<not> prefix d q)
     \<Longrightarrow> stat (files (cleanup temp_extract w)) q = stat (files w) q"
  by (auto simp: cleanup_def rmtree_other split: option.splits)

lemma extract_images_from_pptx_temp:
  "extract_images_from_pptx zipfile w pptx_path output_dir = (images, Some d, w')
     \<Longrightarrow> d = temp_extract_of output_dir"
  by (auto simp: extract_images_from_pptx_def Let_def
           split: sum.splits prod.splits option.splits if_splits)

lemma extract_images_from_pptx_other:
  assumes "extract_images_from_pptx zipfile w pptx_path output_dir = (images, tmp, w')"
    and "\<not> prefix q (temp_extract_of output_dir)" and "\<not> prefix (temp_extract_of output_dir) q"
  shows "stat (files w') q = stat (files w) q"
proof (cases "zipfile pptx_path")
  case (Inl e)
  with assms(1) show ?thesis
    by (auto simp: extract_images_from_pptx_def print_def)
next
  case (Inr ms)
  obtain r1 t1 where ea: "extractall (temp_extract_of output_dir) ms (files w) = (r1, t1)"
    by (cases "extractall (temp_extract_of output_dir) ms (files w)")
  then have "stat t1 q = stat (files w) q"
    using assms(2,3) by (rule extractall_unrelated)
  moreover from Inr ea assms(1) have "files w' = t1"
    by (auto simp: extract_images_from_pptx_def Let_def print_def
             split: option.splits if_splits sum.splits)
  ultimately show ?thesis by simp
qed

lemma extract_images_from_pptx_keeps_dir:
  assumes "extract_images_from_pptx zipfile w pptx_path output_dir = (images, tmp, w')"
    and "is_dir (files w) q"
  shows "is_dir (files w') q"
proof (cases "zipfile pptx_path")
  case (Inl e)
  with assms show ?thesis
    by (auto simp: extract_images_from_pptx_def print_def)
next
  case (Inr ms)
  obtain r1 t1 where ea: "extractall (temp_extract_of output_dir) ms (files w) = (r1, t1)"
    by (cases "extractall (temp_extract_of output_dir) ms (files w)")
  then have "is_dir t1 q"
    using assms(2) by (rule extractall_keeps_dir)
  moreover from Inr ea assms(1) have "files w' = t1"
    by (auto simp: extract_images_from_pptx_def Let_def print_def
             split: option.splits if_splits sum.splits)
  ultimately show ?thesis by simp
qed

text \<open>The three paths the pipeline writes to are pairwise unrelated.\<close>

lemma md_name_neq_temp: "s @ ''.md'' \<noteq> ''temp_extract''"
proof
  assume "s @ ''.md'' = ''temp_extract''"
  then have "last (s @ ''.md'') = last ''temp_extract''" by simp
  then show False by simp
qed

lemma img_name_neq_temp: "s @ ''_images'' \<noteq> ''temp_extract''"
proof
  assume "s @ ''_images'' = ''temp_extract''"
  then have "last (s @ ''_images'') = last ''temp_extract''" by simp
  then show False by simp
qed

lemma md_path_temp:
  "\<not> prefix (md_path_of p out) (temp_extract_of out)"
  "\<not> prefix (temp_extract_of out) (md_path_of p out)"
  using md_name_neq_temp [of "stem p"]
  by (auto simp: md_path_of_def temp_extract_of_def)

lemma img_dir_temp:
  "\<not> prefix (img_dir_of p out) (temp_extract_of out)"
  "\<not> prefix (temp_extract_of out) (img_dir_of p out)"
  using img_name_neq_temp [of "stem p"]
  by (auto simp: img_dir_of_def temp_extract_of_def)

lemma img_dir_md_path: "\<not> prefix (img_dir_of p out) (md_path_of p out)"
  by (auto simp: img_dir_of_def md_path_of_def)

subsection \<open>The converter fails\<close>

lemma convert_unfold:
  assumes "extract_images_from_pptx zipfile (print (Processing (name pptx_path)) w) pptx_path output_dir
             = (images, tmp, w1)"
    and "copy_step w1 pptx_path output_dir keep_images images = (None, w2)"
  shows "convert_pptx_to_markdown zipfile markitdown date w pptx_path output_dir keep_images
           = (fst (convert_step markitdown date w2 pptx_path output_dir),
              cleanup tmp (snd (convert_step markitdown date w2 pptx_path output_dir)))"
  using assms by (simp add: convert_pptx_to_markdown_def Let_def split: prod.splits)

lemma reaches_converterE:
  assumes "reaches_converter zipfile w pptx_path output_dir keep_images"
  obtains images tmp w1 w2 where
    "extract_images_from_pptx zipfile (print (Processing (name pptx_path)) w) pptx_path output_dir
       = (images, tmp, w1)"
    and "copy_step w1 pptx_path output_dir keep_images images = (None, w2)"
proof -
  obtain images tmp w1 where ex:
    "extract_images_from_pptx zipfile (print (Processing (name pptx_path)) w) pptx_path output_dir
       = (images, tmp, w1)"
    by (metis prod_cases3)
  with assms have "fst (copy_step w1 pptx_path output_dir keep_images images) = None"
    by (simp add: reaches_converter_def)
  then obtain w2 where "copy_step w1 pptx_path output_dir keep_images images = (None, w2)"
    by (metis prod.collapse)
  with ex show ?thesis by (rule that)
qed

lemma md_path_reaches_convert:
  assumes "extract_images_from_pptx zipfile (print (Processing (name pptx_path)) w) pptx_path output_dir
             = (images, tmp, w1)"
    and "copy_step w1 pptx_path output_dir keep_images images = (r, w2)"
  shows "stat (files w2) (md_path_of pptx_path output_dir) = stat (files w) (md_path_of pptx_path output_dir)"
proof -
  have "stat (files w1) (md_path_of pptx_path output_dir)
          = stat (files (print (Processing (name pptx_path)) w)) (md_path_of pptx_path output_dir)"
    using assms(1) md_path_temp by (rule extract_images_from_pptx_other)
  moreover have "stat (files w2) (md_path_of pptx_path output_dir) = stat (files w1) (md_path_of pptx_path output_dir)"
    using assms(2) img_dir_md_path by (rule copy_step_other)
  ultimately show ?thesis by (simp add: print_def)
qed

lemma cleanup_md_path:
  assumes "extract_images_from_pptx zipfile w0 pptx_path output_dir = (images, tmp, w1)"
  shows "stat (files (cleanup tmp w3)) (md_path_of pptx_path output_dir)
           = stat (files w3) (md_path_of pptx_path output_dir)"
proof (rule cleanup_other)
  fix d assume "tmp = Some d"
  with assms have "d = temp_extract_of output_dir"
    by (simp add: extract_images_from_pptx_temp)
  then show "\<not> prefix d (md_path_of pptx_path output_dir)"
    by (simp add: md_path_temp)
qed

lemma stdout_cleanup: "stdout (cleanup tmp w) = stdout w"
  by (simp add: cleanup_def split: option.splits)

text \<open>
  C2. If the converter is run and exits with a non-zero status, the pipeline returns
  \<open>False\<close>, the output document \<open><stem>.md\<close> is as it was before the call (absent if it
  was absent) and the last two messages printed are the error and the captured standard
  error.
\<close>

theorem converter_failure_writes_nothing:
  assumes "markitdown pptx_path = Exited code out err" and "code \<noteq> 0"
    and "reaches_converter zipfile w pptx_path output_dir keep_images"
  shows "fst (convert_pptx_to_markdown zipfile markitdown date w pptx_path output_dir keep_images)
           = Inr False
         \<and> stat (files (snd (convert_pptx_to_markdown zipfile markitdown date w pptx_path output_dir keep_images)))
              (output_dir @ [stem pptx_path @ ''.md''])
           = stat (files w) (output_dir @ [stem pptx_path @ ''.md''])
         \<and> (\<exists>printed. stdout (snd (convert_pptx_to_markdown zipfile markitdown date w pptx_path output_dir keep_images))
              = printed @ [ErrorConverting code, Stderr err])"
proof -
  let ?md = "md_path_of pptx_path output_dir"
  from assms(3) obtain images tmp w1 w2 where
    ex: "extract_images_from_pptx zipfile (print (Processing (name pptx_path)) w) pptx_path output_dir
           = (images, tmp, w1)"
    and cp: "copy_step w1 pptx_path output_dir keep_images images = (None, w2)"
    by (rule reaches_converterE)
  let ?w3 = "print (Stderr err) (print (ErrorConverting code) w2)"
  have cs: "convert_step markitdown date w2 pptx_path output_dir = (Inr False, ?w3)"
    using assms(1,2) by (simp add: convert_step_def)
  have cv: "convert_pptx_to_markdown zipfile markitdown date w pptx_path output_dir keep_images
              = (Inr False, cleanup tmp ?w3)"
    using convert_unfold [OF ex cp] cs by simp
  have "stat (files (cleanup tmp ?w3)) ?md = stat (files ?w3) ?md"
    using ex by (rule cleanup_md_path)
  also have "\<dots> = stat (files w2) ?md" by (simp add: print_def)
  also have "\<dots> = stat (files w) ?md"
    using ex cp by (rule md_path_reaches_convert)
  finally have md: "stat (files (cleanup tmp ?w3)) ?md = stat (files w) ?md" .
  have out: "stdout (cleanup tmp ?w3) = stdout w2 @ [ErrorConverting code, Stderr err]"
    by (simp add: stdout_cleanup print_def)
  show ?thesis
    using cv md out by (simp add: md_path_of_def)
qed

theorem converter_failure_writes_nothing_witness:
  "converter_fails [''in'', ''deck.pptx''] = Exited 1 [] ''boom''
   \<and> reaches_converter deck_zip disk0 [''in'', ''deck.pptx''] [''out''] True
   \<and> fst (convert_pptx_to_markdown deck_zip converter_fails clock disk0
          [''in'', ''deck.pptx''] [''out''] True) = Inr False
   \<and> stat (files (snd (convert_pptx_to_markdown deck_zip converter_fails clock disk0
          [''in'', ''deck.pptx''] [''out''] True))) [''out'', ''deck.md''] = None"
proof -
  have cf: "converter_fails [''in'', ''deck.pptx''] = Exited 1 [] ''boom''"
    by (simp add: converter_fails_def)
  have rc: "reaches_converter deck_zip disk0 [''in'', ''deck.pptx''] [''out''] True"
    by code_simp
  have st: "stem [''in'', ''deck.pptx''] = ''deck''" by code_simp
  have before: "stat (files disk0) [''out'', ''deck.md''] = None" by code_simp
  show ?thesis
    using converter_failure_writes_nothing
        [of converter_fails "[''in'', ''deck.pptx'']" 1 "[]" "''boom''" deck_zip disk0 "[''out'']" True clock]
      cf rc before
    by (simp add: st)
qed

subsection \<open>The converter succeeds\<close>

lemma copy_images_keeps_dir:
  "copy_images img_dir imgs t = (r, t') \<Longrightarrow> is_dir t q \<Longrightarrow> is_dir t' q"
proof (induction imgs arbitrary: t)
  case Nil
  then show ?case by simp
next
  case (Cons img imgs)
  show ?case
  proof (cases "copy2 img (img_dir @ [name img]) t")
    case (Inl e)
    with Cons.prems show ?thesis by simp
  next
    case (Inr t1)
    then have "is_dir t1 q" using Cons.prems(2) by (rule copy2_keeps_dir)
    moreover from Inr Cons.prems(1) have "copy_images img_dir imgs t1 = (r, t')" by simp
    ultimately show ?thesis using Cons.IH by simp
  qed
qed

lemma copy_step_keeps_dir:
  assumes "copy_step w pptx_path output_dir keep_images images = (r, w')"
    and "is_dir (files w) q"
  shows "is_dir (files w') q"
proof (cases "images \<noteq> [] \<and> keep_images")
  case False
  with assms show ?thesis by (auto simp: copy_step_def)
next
  case True
  let ?d = "img_dir_of pptx_path output_dir"
  show ?thesis
  proof (cases "mkdir_exist_ok ?d (files w)")
    case (Inl e)
    with True assms show ?thesis by (auto simp: copy_step_def)
  next
    case (Inr t1)
    then have s1: "is_dir t1 q"
      using assms(2) by (rule mkdir_exist_ok_keeps_dir)
    obtain r2 t2 where ci: "copy_images ?d images t1 = (r2, t2)"
      by (cases "copy_images ?d images t1")
    then have s2: "is_dir t2 q"
      using s1 by (rule copy_images_keeps_dir)
    from True Inr ci assms(1) have "files w' = t2"
      by (auto simp: copy_step_def Let_def print_def)
    with s2 show ?thesis by simp
  qed
qed

text \<open>
  C4, as stated, fails on the code: that the converter succeeds is not enough for the
  document to be written. Where a directory stands at \<open><stem>.md\<close>, \<^verbatim>\<open>open\<close> raises
  \<^verbatim>\<open>IsADirectoryError\<close>; where \<^verbatim>\<open>date\<close> cannot be started, \<^verbatim>\<open>subprocess.run\<close> raises
  \<^verbatim>\<open>FileNotFoundError\<close>. Neither is caught, the pipeline raises, and no document is
  written although the converter exited with status 0.
\<close>

theorem converter_success_no_document_counterexample:
  "converter_ok [''in'', ''deck.pptx''] = Exited 0 ''body'' []
   \<and> reaches_converter deck_zip blocked_disk [''in'', ''deck.pptx''] [''out''] False
   \<and> fst (convert_pptx_to_markdown deck_zip converter_ok clock blocked_disk
          [''in'', ''deck.pptx''] [''out''] False) = Inl IsADirectoryError
   \<and> stat (files (snd (convert_pptx_to_markdown deck_zip converter_ok clock blocked_disk
          [''in'', ''deck.pptx''] [''out''] False))) [''out'', ''deck.md''] = Some Dir
   \<and> reaches_converter deck_zip disk0 [''in'', ''deck.pptx''] [''out''] False
   \<and> fst (convert_pptx_to_markdown deck_zip converter_ok (NotStarted FileNotFoundError) disk0
          [''in'', ''deck.pptx''] [''out''] False) = Inl FileNotFoundError
   \<and> stat (files (snd (convert_pptx_to_markdown deck_zip converter_ok (NotStarted FileNotFoundError) disk0
          [''in'', ''deck.pptx''] [''out''] False))) [''out'', ''deck.md''] = None"
  by code_simp

text \<open>
  C4, amended. When the converter is run and exits with status 0, \<^verbatim>\<open>date\<close> can be started,
  the output directory is a directory and \<open><stem>.md\<close> is not itself a directory, the
  pipeline returns \<open>True\<close> and \<open><output_dir>/<stem>.md\<close> is then a regular file,
  whatever was there before, holding the title line with the stem, the source file name,
  the output of \<^verbatim>\<open>date\<close> with the white space at both ends removed, the separator and
  then the converter's standard output.
\<close>

theorem converter_success_writes_document:
  assumes "markitdown pptx_path = Exited 0 out err"
    and "date = Exited dcode dout derr"
    and "reaches_converter zipfile w pptx_path output_dir keep_images"
    and "is_dir (files w) output_dir"
    and "\<not> is_dir (files w) (output_dir @ [stem pptx_path @ ''.md''])"
  shows "fst (convert_pptx_to_markdown zipfile markitdown date w pptx_path output_dir keep_images)
           = Inr True
         \<and> stat (files (snd (convert_pptx_to_markdown zipfile markitdown date w pptx_path output_dir keep_images)))
              (output_dir @ [stem pptx_path @ ''.md''])
           = Some (File (''# '' @ stem pptx_path @ newline @ newline
                         @ ''**Source File:** '' @ name pptx_path @ ''  '' @ newline
                         @ ''**Converted:** '' @ strip dout @ newline @ newline
                         @ ''---'' @ newline @ newline
                         @ out))"
proof -
  let ?md = "md_path_of pptx_path output_dir"
  let ?content = "header pptx_path (strip dout) @ out"
  from assms(3) obtain images tmp w1 w2 where
    ex: "extract_images_from_pptx zipfile (print (Processing (name pptx_path)) w) pptx_path output_dir
           = (images, tmp, w1)"
    and cp: "copy_step w1 pptx_path output_dir keep_images images = (None, w2)"
    by (rule reaches_converterE)
  have "is_dir (files (print (Processing (name pptx_path)) w)) output_dir"
    using assms(4) by (simp add: print_def)
  with ex have "is_dir (files w1) output_dir"
    by (rule extract_images_from_pptx_keeps_dir)
  with cp have dir2: "is_dir (files w2) output_dir"
    by (rule copy_step_keeps_dir)
  have "stat (files w2) ?md = stat (files w) ?md"
    using ex cp by (rule md_path_reaches_convert)
  with assms(5) have nd2: "\<not> is_dir (files w2) ?md"
    by (simp add: is_dir_def md_path_of_def)
  have "butlast ?md = output_dir" by (simp add: md_path_of_def)
  with dir2 nd2 have wf: "write_file ?md ?content (files w2) = Inr (put ?md (File ?content) (files w2))"
    by (simp add: write_file_def is_dir_def)
  let ?w3 = "print (Size (length ?content))
               (print (Created (stem pptx_path @ ''.md'')) (w2\<lparr>files := put ?md (File ?content) (files w2)\<rparr>))"
  have cs: "convert_step markitdown date w2 pptx_path output_dir = (Inr True, ?w3)"
    using assms(1,2) wf by (simp add: convert_step_def Let_def)
  have cv: "convert_pptx_to_markdown zipfile markitdown date w pptx_path output_dir keep_images
              = (Inr True, cleanup tmp ?w3)"
    using convert_unfold [OF ex cp] cs by simp
  have "stat (files (cleanup tmp ?w3)) ?md = stat (files ?w3) ?md"
    using ex by (rule cleanup_md_path)
  also have "\<dots> = Some (File ?content)"
    by (simp add: print_def stat_put md_path_of_def)
  finally have "stat (files (cleanup tmp ?w3)) ?md = Some (File ?content)" .
  with cv show ?thesis
    by (simp add: md_path_of_def header_def)
qed

theorem converter_success_writes_document_witness:
  "converter_ok [''in'', ''deck.pptx''] = Exited 0 ''body'' []
   \<and> padded_clock = Exited 0 ([CHR 0xC2, CHR 0xA0] @ ''2024-01-01 10:00:00''
                               @ [CHR 0xE2, CHR 0x80, CHR 0x83] @ newline) []
   \<and> reaches_converter deck_zip disk0 [''in'', ''deck.pptx''] [''out''] True
   \<and> is_dir (files disk0) [''out'']
   \<and> \<not> is_dir (files disk0) [''out'', ''deck.md'']
   \<and> fst (convert_pptx_to_markdown deck_zip converter_ok padded_clock disk0
          [''in'', ''deck.pptx''] [''out''] True) = Inr True
   \<and> stat (files (snd (convert_pptx_to_markdown deck_zip converter_ok padded_clock disk0
          [''in'', ''deck.pptx''] [''out''] True))) [''out'', ''deck.md'']
       = Some (File (''# deck'' @ newline @ newline
                     @ ''**Source File:** deck.pptx  '' @ newline
                     @ ''**Converted:** 2024-01-01 10:00:00'' @ newline @ newline
                     @ ''---'' @ newline @ newline @ ''body''))"
proof -
  let ?dout = "[CHR 0xC2, CHR 0xA0] @ ''2024-01-01 10:00:00'' @ [CHR 0xE2, CHR 0x80, CHR 0x83] @ newline"
  have cf: "converter_ok [''in'', ''deck.pptx''] = Exited 0 ''body'' []"
    by (simp add: converter_ok_def)
  have ck: "padded_clock = Exited 0 ?dout []"
    by (simp add: padded_clock_def)
  have rc: "reaches_converter deck_zip disk0 [''in'', ''deck.pptx''] [''out''] True"
    by code_simp
  have d: "is_dir (files disk0) [''out'']" by code_simp
  have nd: "\<not> is_dir (files disk0) [''out'', ''deck.md'']" by code_simp
  have st: "stem [''in'', ''deck.pptx''] = ''deck''" by code_simp
  have nm: "name [''in'', ''deck.pptx''] = ''deck.pptx''" by code_simp
  have sp: "strip ?dout = ''2024-01-01 10:00:00''" by code_simp
  have "fst (convert_pptx_to_markdown deck_zip converter_ok padded_clock disk0
          [''in'', ''deck.pptx''] [''out''] True) = Inr True
   \<and> stat (files (snd (convert_pptx_to_markdown deck_zip converter_ok padded_clock disk0
          [''in'', ''deck.pptx''] [''out''] True))) ([''out''] @ [stem [''in'', ''deck.pptx''] @ ''.md''])
       = Some (File (''# '' @ stem [''in'', ''deck.pptx''] @ newline @ newline
                     @ ''**Source File:** '' @ name [''in'', ''deck.pptx''] @ ''  '' @ newline
                     @ ''**Converted:** '' @ strip ?dout @ newline @ newline
                     @ ''---'' @ newline @ newline @ ''body''))"
    using cf ck rc d nd
    by (intro converter_success_writes_document
          [of converter_ok "[''in'', ''deck.pptx'']" "''body''" "[]" padded_clock 0 ?dout "[]"
              deck_zip disk0 "[''out'']" True]) (simp_all add: st)
  then show ?thesis
    unfolding st nm sp using cf ck rc d nd by simp
qed

subsection \<open>The extraction directory after the call\<close>

text \<open>
  C1. The claim fails on the code: when unpacking raises after the extraction directory has
  been created, the extractor returns \<^verbatim>\<open>None\<close> as the reference, the \<^verbatim>\<open>finally\<close> block
  then removes nothing, and the directory is still there when the pipeline returns,
  with either return value. Evaluated here on an archive whose second member cannot be
  opened, in an output directory that held no extraction directory.
\<close>

theorem temp_directory_left_behind:
  "\<not> path_exists (files disk0) [''out'', ''temp_extract'']
   \<and> fst (convert_pptx_to_markdown damaged_zip converter_ok clock disk0
          [''in'', ''deck.pptx''] [''out''] False) = Inr True
   \<and> is_dir (files (snd (convert_pptx_to_markdown damaged_zip converter_ok clock disk0
          [''in'', ''deck.pptx''] [''out''] False))) [''out'', ''temp_extract'']
   \<and> fst (convert_pptx_to_markdown damaged_zip converter_fails clock disk0
          [''in'', ''deck.pptx''] [''out''] False) = Inr False
   \<and> is_dir (files (snd (convert_pptx_to_markdown damaged_zip converter_fails clock disk0
          [''in'', ''deck.pptx''] [''out''] False))) [''out'', ''temp_extract'']"
  by code_simp

subsection \<open>Atomicity\<close>

text \<open>
  C3, as stated, fails on the code: the images are copied before the converter runs and
  nothing takes them back. With the retain-images flag set and a failing converter the
  pipeline returns \<open>False\<close> and the output directory has gained \<open>deck_images/a.png\<close>.
\<close>

theorem failure_leaves_images_counterexample:
  "fst (convert_pptx_to_markdown deck_zip converter_fails clock disk0
          [''in'', ''deck.pptx''] [''out''] True) = Inr False
   \<and> stat (files disk0) [''out'', ''deck_images'', ''a.png''] = None
   \<and> stat (files (snd (convert_pptx_to_markdown deck_zip converter_fails clock disk0
          [''in'', ''deck.pptx''] [''out''] True))) [''out'', ''deck_images'', ''a.png'']
       = Some (File ''A'')"
  by code_simp

lemma cleanup_unrelated:
  assumes "extract_images_from_pptx zipfile w0 pptx_path output_dir = (images, tmp, w1)"
    and "\<not> prefix (temp_extract_of output_dir) q"
  shows "stat (files (cleanup tmp w3)) q = stat (files w3) q"
proof (rule cleanup_other)
  fix d assume "tmp = Some d"
  with assms(1) have "d = temp_extract_of output_dir"
    by (simp add: extract_images_from_pptx_temp)
  with assms(2) show "\<not> prefix d q" by simp
qed

lemma copy_step_off:
  "\<not> keep_images \<Longrightarrow> copy_step w pptx_path output_dir keep_images images = (None, w)"
  by (simp add: copy_step_def)

text \<open>
  C3, amended. When the pipeline returns \<open>False\<close>, the output document \<open><stem>.md\<close> is as
  it was before the call, and so is every path that is neither in the \<open><stem>_images\<close>
  folder nor in the extraction directory nor an ancestor of it; without the
  retain-images flag the images folder is untouched too.
\<close>

theorem failure_leaves_document_untouched:
  assumes "fst (convert_pptx_to_markdown zipfile markitdown date w pptx_path output_dir keep_images)
             = Inr False"
  shows "stat (files (snd (convert_pptx_to_markdown zipfile markitdown date w pptx_path output_dir keep_images)))
              (output_dir @ [stem pptx_path @ ''.md''])
           = stat (files w) (output_dir @ [stem pptx_path @ ''.md''])
         \<and> (\<forall>q. \<not> prefix (output_dir @ [''temp_extract'']) q \<and> \<not> prefix q (output_dir @ [''temp_extract''])
                \<and> (keep_images \<longrightarrow> \<not> prefix (output_dir @ [stem pptx_path @ ''_images'']) q)
              \<longrightarrow> stat (files (snd (convert_pptx_to_markdown zipfile markitdown date w pptx_path output_dir keep_images))) q
                    = stat (files w) q)"
proof -
  let ?tmp = "temp_extract_of output_dir"
  let ?img = "img_dir_of pptx_path output_dir"
  let ?w0 = "print (Processing (name pptx_path)) w"
  obtain images tmp w1 where ex:
    "extract_images_from_pptx zipfile ?w0 pptx_path output_dir = (images, tmp, w1)"
    by (metis prod_cases3)
  obtain r w2 where cp: "copy_step w1 pptx_path output_dir keep_images images = (r, w2)"
    by (cases "copy_step w1 pptx_path output_dir keep_images images")
  have r: "r = None"
    using assms ex cp by (cases r) (simp_all add: convert_pptx_to_markdown_def)
  obtain w3 where cs: "convert_step markitdown date w2 pptx_path output_dir = (Inr False, w3)"
    using assms convert_unfold [OF ex cp [unfolded r], of markitdown date]
    by (metis fst_conv prod.collapse)
  then have f3: "files w3 = files w2"
    by (rule convert_step_failed) simp
  have cv: "snd (convert_pptx_to_markdown zipfile markitdown date w pptx_path output_dir keep_images)
              = cleanup tmp w3"
    using convert_unfold [OF ex cp [unfolded r], of markitdown date] cs by simp
  have frame: "stat (files (cleanup tmp w3)) q = stat (files w) q"
    if q: "\<not> prefix ?tmp q" "\<not> prefix q ?tmp" "keep_images \<longrightarrow> \<not> prefix ?img q" for q
  proof -
    have "stat (files (cleanup tmp w3)) q = stat (files w3) q"
      using ex q(1) by (rule cleanup_unrelated)
    also have "\<dots> = stat (files w2) q" by (simp add: f3)
    also have "\<dots> = stat (files w1) q"
    proof (cases keep_images)
      case True
      with q(3) have "\<not> prefix ?img q" by simp
      with cp show ?thesis by (rule copy_step_other)
    next
      case False
      with cp show ?thesis by (simp add: copy_step_off)
    qed
    also have "\<dots> = stat (files ?w0) q"
      using ex q(2) q(1) by (rule extract_images_from_pptx_other)
    finally show ?thesis by (simp add: print_def)
  qed
  have "stat (files (cleanup tmp w3)) (md_path_of pptx_path output_dir)
          = stat (files w) (md_path_of pptx_path output_dir)"
    by (rule frame) (simp_all add: md_path_temp img_dir_md_path)
  with frame cv show ?thesis
    by (simp add: md_path_of_def temp_extract_of_def img_dir_of_def)
qed

theorem failure_leaves_document_untouched_witness:
  "fst (convert_pptx_to_markdown deck_zip converter_fails clock disk0
          [''in'', ''deck.pptx''] [''out''] True) = Inr False
   \<and> stat (files (snd (convert_pptx_to_markdown deck_zip converter_fails clock disk0
          [''in'', ''deck.pptx''] [''out''] True))) [''out'', ''deck.md''] = None
   \<and> stat (files (snd (convert_pptx_to_markdown deck_zip converter_fails clock disk0
          [''in'', ''deck.pptx''] [''out''] True))) [''out''] = Some Dir"
proof -
  have f: "fst (convert_pptx_to_markdown deck_zip converter_fails clock disk0
          [''in'', ''deck.pptx''] [''out''] True) = Inr False"
    by code_simp
  have st: "stem [''in'', ''deck.pptx''] = ''deck''" by code_simp
  have b1: "stat (files disk0) [''out'', ''deck.md''] = None" by code_simp
  note t = failure_leaves_document_untouched [OF f]
  from t have "stat (files (snd (convert_pptx_to_markdown deck_zip converter_fails clock disk0
          [''in'', ''deck.pptx''] [''out''] True))) [''out'', ''deck.md''] = None"
    by (simp add: st b1)
  moreover have "stat (files (snd (convert_pptx_to_markdown deck_zip converter_fails clock disk0
          [''in'', ''deck.pptx''] [''out''] True))) [''out''] = Some Dir"
    by code_simp
  ultimately show ?thesis using f by simp
qed

subsection \<open>Unpacking fails\<close>

lemma extract_images_from_pptx_fails:
  assumes "unpacking_fails zipfile (files w) pptx_path output_dir e"
  shows "\<exists>t1. extract_images_from_pptx zipfile w pptx_path output_dir
            = ([], None, print (Warning e) (w\<lparr>files := t1\<rparr>))"
proof (cases "zipfile pptx_path")
  case (Inl e')
  with assms have "e' = e" by (simp add: unpacking_fails_def)
  with Inl have "extract_images_from_pptx zipfile w pptx_path output_dir
            = ([], None, print (Warning e) (w\<lparr>files := files w\<rparr>))"
    by (simp add: extract_images_from_pptx_def)
  then show ?thesis by blast
next
  case (Inr ms)
  obtain r1 t1 where ea: "extractall (temp_extract_of output_dir) ms (files w) = (r1, t1)"
    by (cases "extractall (temp_extract_of output_dir) ms (files w)")
  have "extract_images_from_pptx zipfile w pptx_path output_dir
            = ([], None, print (Warning e) (w\<lparr>files := t1\<rparr>))"
    using assms Inr ea
    by (cases r1)
       (auto simp: unpacking_fails_def extract_images_from_pptx_def Let_def media_dir_of_def)
  then show ?thesis by blast
qed

text \<open>
  C6. When unpacking fails with an exception \<open>e\<close>, the extractor still returns: the asset
  list is empty, the reference to the extraction directory is \<^verbatim>\<open>None\<close>, and the one message
  printed is the warning carrying \<open>e\<close>. The caller goes on: the pipeline then is the
  conversion step run on the state the extractor left, with no copy and no removal.
\<close>

theorem unpacking_failure_is_contained:
  assumes "unpacking_fails zipfile (files w) pptx_path output_dir e"
  shows "fst (extract_images_from_pptx zipfile w pptx_path output_dir) = []
         \<and> fst (snd (extract_images_from_pptx zipfile w pptx_path output_dir)) = None
         \<and> stdout (snd (snd (extract_images_from_pptx zipfile w pptx_path output_dir)))
             = stdout w @ [Warning e]
         \<and> convert_pptx_to_markdown zipfile markitdown date w pptx_path output_dir keep_images
             = convert_step markitdown date
                 (snd (snd (extract_images_from_pptx zipfile (print (Processing (name pptx_path)) w)
                              pptx_path output_dir)))
                 pptx_path output_dir"
proof -
  let ?w0 = "print (Processing (name pptx_path)) w"
  from assms obtain t1 where
    e1: "extract_images_from_pptx zipfile w pptx_path output_dir
           = ([], None, print (Warning e) (w\<lparr>files := t1\<rparr>))"
    using extract_images_from_pptx_fails by blast
  have "unpacking_fails zipfile (files ?w0) pptx_path output_dir e"
    using assms by (simp add: print_def)
  then obtain t2 where
    e2: "extract_images_from_pptx zipfile ?w0 pptx_path output_dir
           = ([], None, print (Warning e) (?w0\<lparr>files := t2\<rparr>))"
    using extract_images_from_pptx_fails by blast
  have "convert_pptx_to_markdown zipfile markitdown date w pptx_path output_dir keep_images
          = convert_step markitdown date (print (Warning e) (?w0\<lparr>files := t2\<rparr>)) pptx_path output_dir"
    by (simp add: convert_pptx_to_markdown_def Let_def e2 copy_step_def cleanup_def split: prod.splits)
  with e1 e2 show ?thesis by (simp add: print_def)
qed

theorem unpacking_failure_is_contained_witness:
  "unpacking_fails damaged_zip (files disk0) [''in'', ''deck.pptx''] [''out''] BadZipFile
   \<and> fst (extract_images_from_pptx damaged_zip disk0 [''in'', ''deck.pptx''] [''out'']) = []
   \<and> fst (snd (extract_images_from_pptx damaged_zip disk0 [''in'', ''deck.pptx''] [''out''])) = None
   \<and> stdout (snd (snd (extract_images_from_pptx damaged_zip disk0 [''in'', ''deck.pptx''] [''out''])))
       = [Warning BadZipFile]"
proof -
  have u: "unpacking_fails damaged_zip (files disk0) [''in'', ''deck.pptx''] [''out''] BadZipFile"
    by code_simp
  have s: "stdout disk0 = []" by (simp add: disk0_def)
  show ?thesis
    using unpacking_failure_is_contained [OF u, of converter_ok clock False] u
    by (simp add: s)
qed

subsection \<open>Which entries become assets\<close>

lemma absent_stat: "absent t d \<Longrightarrow> prefix d q \<Longrightarrow> q \<noteq> [] \<Longrightarrow> stat t q = None"
  by (auto simp: absent_def stat_def list_all_iff map_of_eq_None_iff)

lemma set_children: "set (children t d) = {n. path_exists t (d @ [n])}"
proof (intro set_eqI iffI)
  fix n assume "n \<in> set (children t d)"
  then obtain e where e: "e \<in> set t" "fst e \<noteq> []" "butlast (fst e) = d" "n = last (fst e)"
    by (auto simp: children_def)
  then have "fst e = d @ [n]"
    by (metis append_butlast_last_id)
  with e(1) have "d @ [n] \<in> fst ` set t" by force
  then show "n \<in> {n. path_exists t (d @ [n])}"
    by (simp add: path_exists_def stat_def map_of_eq_None_iff)
next
  fix n assume "n \<in> {n. path_exists t (d @ [n])}"
  then obtain v where "map_of t (d @ [n]) = Some v"
    by (auto simp: path_exists_def stat_def)
  then have "(d @ [n], v) \<in> set t" by (rule map_of_SomeD)
  then show "n \<in> set (children t d)"
    by (force simp: children_def)
qed

lemma image_suffix_last: "image_suffix (d @ [n]) = image_suffix [n]"
  by (simp add: image_suffix_def suffix_of_def name_def)

text \<open>What a call that returns a reference has done.\<close>

lemma extract_images_from_pptx_Some:
  assumes "extract_images_from_pptx zipfile w pptx_path output_dir = (images, Some d, w')"
  obtains ms where "zipfile pptx_path = Inr ms"
    and "extractall (temp_extract_of output_dir) ms (files w) = (None, files w')"
    and "w' = w\<lparr>files := files w'\<rparr>"
    and "d = temp_extract_of output_dir"
proof -
  from assms obtain ms where z: "zipfile pptx_path = Inr ms"
    by (cases "zipfile pptx_path") (auto simp: extract_images_from_pptx_def)
  obtain r1 t1 where ea: "extractall (temp_extract_of output_dir) ms (files w) = (r1, t1)"
    by (cases "extractall (temp_extract_of output_dir) ms (files w)")
  from assms z ea have r1: "r1 = None"
    by (cases r1) (auto simp: extract_images_from_pptx_def)
  from assms z ea r1 have w': "w' = w\<lparr>files := t1\<rparr>"
    by (auto simp: extract_images_from_pptx_def Let_def split: if_splits sum.splits)
  have d: "d = temp_extract_of output_dir"
    using assms by (rule extract_images_from_pptx_temp)
  show ?thesis
    using that [OF z _ _ d] ea r1 w' by simp
qed

lemma extract_images_from_pptx_listing:
  assumes "extract_images_from_pptx zipfile w pptx_path output_dir = (images, Some d, w')"
    and "path_exists (files w') (media_dir_of output_dir)"
  shows "images = filter image_suffix
           (sort (map (\<lambda>n. media_dir_of output_dir @ [n]) (children (files w') (media_dir_of output_dir))))"
proof -
  from assms(1) obtain ms where z: "zipfile pptx_path = Inr ms"
    and ea: "extractall (temp_extract_of output_dir) ms (files w) = (None, files w')"
    by (rule extract_images_from_pptx_Some)
  show ?thesis
    using assms z ea
    by (auto simp: extract_images_from_pptx_def Let_def media_dir_of_def iterdir_def
             split: if_splits sum.splits option.splits node.splits)
qed

lemma extract_images_from_pptx_no_media:
  assumes "extract_images_from_pptx zipfile w pptx_path output_dir = (images, Some d, w')"
    and "\<not> path_exists (files w') (media_dir_of output_dir)"
  shows "images = []"
proof -
  from assms(1) obtain ms where z: "zipfile pptx_path = Inr ms"
    and ea: "extractall (temp_extract_of output_dir) ms (files w) = (None, files w')"
    by (rule extract_images_from_pptx_Some)
  show ?thesis
    using assms z ea
    by (auto simp: extract_images_from_pptx_def Let_def media_dir_of_def split: if_splits sum.splits)
qed

text \<open>
  C10. When the extractor returns a reference and the media path exists, every asset is a
  direct entry of the media folder (nothing from a subfolder), and a direct entry is an
  asset exactly when its name has an allowed suffix, whatever kind of node it is: in
  particular a directory named like an image is returned.
\<close>

theorem assets_chosen_by_suffix_only:
  assumes "extract_images_from_pptx zipfile w pptx_path output_dir = (images, Some d, w')"
    and "path_exists (files w') (output_dir @ [''temp_extract'', ''ppt'', ''media''])"
  shows "(\<forall>p\<in>set images. \<exists>n. p = output_dir @ [''temp_extract'', ''ppt'', ''media'', n])
         \<and> (\<forall>n. path_exists (files w') (output_dir @ [''temp_extract'', ''ppt'', ''media'', n])
               \<longrightarrow> (output_dir @ [''temp_extract'', ''ppt'', ''media'', n] \<in> set images
                      \<longleftrightarrow> image_suffix [n]))
         \<and> (\<forall>n. is_dir (files w') (output_dir @ [''temp_extract'', ''ppt'', ''media'', n])
                 \<and> image_suffix [n]
               \<longrightarrow> output_dir @ [''temp_extract'', ''ppt'', ''media'', n] \<in> set images)"
proof -
  let ?m = "media_dir_of output_dir"
  have m: "?m = output_dir @ [''temp_extract'', ''ppt'', ''media'']"
    by (simp add: media_dir_of_def temp_extract_of_def)
  have mn: "output_dir @ [''temp_extract'', ''ppt'', ''media'', n] = ?m @ [n]" for n
    by (simp add: m)
  from assms(2) have ex: "path_exists (files w') ?m" by (simp add: m)
  from assms(1) ex have
    "images = filter image_suffix (sort (map (\<lambda>n. ?m @ [n]) (children (files w') ?m)))"
    by (rule extract_images_from_pptx_listing)
  then have s: "set images = {p. (\<exists>n. p = ?m @ [n] \<and> path_exists (files w') (?m @ [n])) \<and> image_suffix p}"
    by (auto simp: set_children)
  have a: "\<forall>p\<in>set images. \<exists>n. p = ?m @ [n]"
    using s by auto
  have b: "\<forall>n. path_exists (files w') (?m @ [n]) \<longrightarrow> (?m @ [n] \<in> set images \<longleftrightarrow> image_suffix [n])"
    using s by (auto simp: image_suffix_last)
  have c: "\<forall>n. is_dir (files w') (?m @ [n]) \<and> image_suffix [n] \<longrightarrow> ?m @ [n] \<in> set images"
    using b by (auto simp: is_dir_def path_exists_def)
  show ?thesis
    unfolding mn using a b c by blast
qed

theorem assets_chosen_by_suffix_only_witness:
  "extract_images_from_pptx nested_zip disk0 [''in'', ''deck.pptx''] [''out'']
     = ([[''out'', ''temp_extract'', ''ppt'', ''media'', ''a.png''],
         [''out'', ''temp_extract'', ''ppt'', ''media'', ''x.png'']],
        Some [''out'', ''temp_extract''],
        snd (snd (extract_images_from_pptx nested_zip disk0 [''in'', ''deck.pptx''] [''out''])))
   \<and> is_dir (files (snd (snd (extract_images_from_pptx nested_zip disk0 [''in'', ''deck.pptx''] [''out'']))))
        [''out'', ''temp_extract'', ''ppt'', ''media'', ''x.png'']
   \<and> image_suffix [''x.png'']
   \<and> [''out'', ''temp_extract'', ''ppt'', ''media'', ''x.png'']
        \<in> set (fst (extract_images_from_pptx nested_zip disk0 [''in'', ''deck.pptx''] [''out'']))
   \<and> path_exists (files (snd (snd (extract_images_from_pptx nested_zip disk0 [''in'', ''deck.pptx''] [''out'']))))
        [''out'', ''temp_extract'', ''ppt'', ''media'', ''sub'', ''z.png'']
   \<and> [''out'', ''temp_extract'', ''ppt'', ''media'', ''sub'', ''z.png'']
        \<notin> set (fst (extract_images_from_pptx nested_zip disk0 [''in'', ''deck.pptx''] [''out'']))"
proof -
  let ?r = "extract_images_from_pptx nested_zip disk0 [''in'', ''deck.pptx''] [''out'']"
  have e: "?r = ([[''out'', ''temp_extract'', ''ppt'', ''media'', ''a.png''],
         [''out'', ''temp_extract'', ''ppt'', ''media'', ''x.png'']],
        Some [''out'', ''temp_extract''], snd (snd ?r))"
    by code_simp
  have p: "path_exists (files (snd (snd ?r))) ([''out''] @ [''temp_extract'', ''ppt'', ''media''])"
    by code_simp
  have d: "is_dir (files (snd (snd ?r))) [''out'', ''temp_extract'', ''ppt'', ''media'', ''x.png'']"
    by code_simp
  have z: "path_exists (files (snd (snd ?r))) [''out'', ''temp_extract'', ''ppt'', ''media'', ''sub'', ''z.png'']"
    by code_simp
  have i: "image_suffix [''x.png'']" by code_simp
  note t = assets_chosen_by_suffix_only [OF e p]
  from t d i have x: "[''out'', ''temp_extract'', ''ppt'', ''media'', ''x.png'']
        \<in> set [[''out'', ''temp_extract'', ''ppt'', ''media'', ''a.png''],
         [''out'', ''temp_extract'', ''ppt'', ''media'', ''x.png'']]"
    by simp
  from t have "\<forall>p\<in>set [[''out'', ''temp_extract'', ''ppt'', ''media'', ''a.png''],
         [''out'', ''temp_extract'', ''ppt'', ''media'', ''x.png'']].
       \<exists>n. p = [''out'', ''temp_extract'', ''ppt'', ''media'', n]"
    by simp
  then have nz: "[''out'', ''temp_extract'', ''ppt'', ''media'', ''sub'', ''z.png'']
        \<notin> set [[''out'', ''temp_extract'', ''ppt'', ''media'', ''a.png''],
         [''out'', ''temp_extract'', ''ppt'', ''media'', ''x.png'']]"
    by auto
  have f: "fst ?r = [[''out'', ''temp_extract'', ''ppt'', ''media'', ''a.png''],
         [''out'', ''temp_extract'', ''ppt'', ''media'', ''x.png'']]"
    using e by (metis fst_conv)
  show ?thesis
    using e d i z x nz unfolding f by blast
qed

subsection \<open>No media folder\<close>


text \<open>
  C7, as stated, fails on the code: the assets are read from the extraction directory,
  which is not new when an earlier call has left it behind. A first archive unpacks
  \<open>ppt/media/old.png\<close> and then fails on its second member, so that the pipeline returns
  with the extraction directory still there; the next archive has no media folder, and
  the extractor returns \<open>old.png\<close> for it.
\<close>

theorem stale_asset_without_media_folder_counterexample:
  "plain_zip [''in'', ''deck.pptx''] = Inr [ZFile [''ppt'', ''slides'', ''slide1.xml''] ''S'']
   \<and> fst (convert_pptx_to_markdown leaky_zip converter_ok clock disk0
          [''in'', ''first.pptx''] [''out''] False) = Inr True
   \<and> fst (extract_images_from_pptx plain_zip
          (snd (convert_pptx_to_markdown leaky_zip converter_ok clock disk0
                  [''in'', ''first.pptx''] [''out''] False))
          [''in'', ''deck.pptx''] [''out''])
       = [[''out'', ''temp_extract'', ''ppt'', ''media'', ''old.png'']]"
  by code_simp

text \<open>
  C7, amended. For an archive that can be unpacked and has no member at or below
  \<open>ppt/media\<close>, unpacked where nothing lies at or below \<open><output_dir>/temp_extract\<close>
  before the call, the extractor returns no asset together with the reference to the
  extraction directory (not \<^verbatim>\<open>None\<close>, which is what a failure returns) and prints
  nothing.
\<close>

theorem no_media_folder_no_assets:
  assumes "zipfile pptx_path = Inr ms"
    and "\<forall>m\<in>set ms. \<not> prefix [''ppt'', ''media''] (member_path m)"
    and "fst (extractall (output_dir @ [''temp_extract'']) ms (files w)) = None"
    and "absent (files w) (output_dir @ [''temp_extract''])"
  shows "fst (extract_images_from_pptx zipfile w pptx_path output_dir) = []
         \<and> fst (snd (extract_images_from_pptx zipfile w pptx_path output_dir))
             = Some (output_dir @ [''temp_extract''])
         \<and> stdout (snd (snd (extract_images_from_pptx zipfile w pptx_path output_dir))) = stdout w"
proof -
  let ?tmp = "temp_extract_of output_dir"
  let ?m = "media_dir_of output_dir"
  obtain t1 where ea: "extractall ?tmp ms (files w) = (None, t1)"
    using assms(3) by (metis prod.collapse temp_extract_of_def)
  have "\<forall>m\<in>set ms. \<not> prefix ?m (?tmp @ member_path m)"
    using assms(2) by (simp add: media_dir_of_def)
  with ea have "stat t1 ?m = stat (files w) ?m"
    by (rule extractall_other)
  also have "\<dots> = None"
    using assms(4) by (intro absent_stat [where d = ?tmp]) (simp_all add: media_dir_of_def temp_extract_of_def)
  finally have "\<not> path_exists t1 (?tmp @ [''ppt'', ''media''])"
    by (simp add: path_exists_def media_dir_of_def)
  then have "extract_images_from_pptx zipfile w pptx_path output_dir = ([], Some ?tmp, w\<lparr>files := t1\<rparr>)"
    using assms(1) ea by (simp add: extract_images_from_pptx_def Let_def)
  then show ?thesis by (simp add: temp_extract_of_def)
qed

theorem no_media_folder_no_assets_witness:
  "plain_zip [''in'', ''deck.pptx''] = Inr [ZFile [''ppt'', ''slides'', ''slide1.xml''] ''S'']
   \<and> absent (files disk0) [''out'', ''temp_extract'']
   \<and> fst (extract_images_from_pptx plain_zip disk0 [''in'', ''deck.pptx''] [''out'']) = []
   \<and> fst (snd (extract_images_from_pptx plain_zip disk0 [''in'', ''deck.pptx''] [''out'']))
       = Some [''out'', ''temp_extract'']
   \<and> stdout (snd (snd (extract_images_from_pptx plain_zip disk0 [''in'', ''deck.pptx''] [''out'']))) = []"
proof -
  have z: "plain_zip [''in'', ''deck.pptx''] = Inr [ZFile [''ppt'', ''slides'', ''slide1.xml''] ''S'']"
    by (simp add: plain_zip_def)
  have nm: "\<forall>m\<in>set [ZFile [''ppt'', ''slides'', ''slide1.xml''] ''S''].
              \<not> prefix [''ppt'', ''media''] (member_path m)"
    by simp
  have ok: "fst (extractall ([''out''] @ [''temp_extract''])
              [ZFile [''ppt'', ''slides'', ''slide1.xml''] ''S''] (files disk0)) = None"
    by code_simp
  have ab: "absent (files disk0) ([''out''] @ [''temp_extract''])"
    by code_simp
  have s: "stdout disk0 = []" by (simp add: disk0_def)
  show ?thesis
    using no_media_folder_no_assets
        [of plain_zip "[''in'', ''deck.pptx'']" "[ZFile [''ppt'', ''slides'', ''slide1.xml''] ''S'']"
            "[''out'']" disk0]
      z nm ok ab
    by (simp add: s)
qed

subsection \<open>Where the archive is unpacked\<close>




subsection \<open>Listing and sorting\<close>

lemma append_le_append: "(d @ x \<le> d @ y) = (x \<le> (y :: 'a :: linorder list))"
  by (induction d) auto

lemma snoc_le_snoc: "(d @ [n] \<le> d @ [m]) = (n \<le> (m :: 'a :: linorder))"
proof -
  have "([n] \<le> [m]) = (n \<le> m)" by auto
  then show ?thesis unfolding append_le_append .
qed

lemma sorted_map_snoc: "sorted (map (\<lambda>n. d @ [n]) ns) = sorted (ns :: string list)"
  unfolding sorted_map snoc_le_snoc ..

lemma sort_map_snoc:
  assumes "distinct (ns :: string list)"
  shows "sort (map (\<lambda>n. d @ [n]) ns) = map (\<lambda>n. d @ [n]) (sort ns)"
proof (rule sorted_distinct_set_unique)
  show "sorted (sort (map (\<lambda>n. d @ [n]) ns))" by simp
  show "distinct (sort (map (\<lambda>n. d @ [n]) ns))"
    using assms by (simp add: distinct_map inj_on_def)
  show "sorted (map (\<lambda>n. d @ [n]) (sort ns))"
    by (simp add: sorted_map_snoc)
  show "distinct (map (\<lambda>n. d @ [n]) (sort ns))"
    using assms by (simp add: distinct_map inj_on_def)
  show "set (sort (map (\<lambda>n. d @ [n]) ns)) = set (map (\<lambda>n. d @ [n]) (sort ns))"
    by simp
qed

lemma distinct_children: "distinct (children t d)"
  by (simp add: children_def)

text \<open>The assets as a sorted list of names of direct entries.\<close>

lemma extract_images_from_pptx_names:
  assumes "extract_images_from_pptx zipfile w pptx_path output_dir = (images, Some d, w')"
    and "path_exists (files w') (media_dir_of output_dir)"
  shows "images = map (\<lambda>n. media_dir_of output_dir @ [n])
           (sorted_list_of_set {n. image_suffix [n] \<and> path_exists (files w') (media_dir_of output_dir @ [n])})"
proof -
  let ?m = "media_dir_of output_dir"
  let ?cs = "children (files w') ?m"
  let ?ns = "filter (\<lambda>n. image_suffix [n]) (sort ?cs)"
  have "images = filter image_suffix (sort (map (\<lambda>n. ?m @ [n]) ?cs))"
    using assms by (rule extract_images_from_pptx_listing)
  also have "\<dots> = filter image_suffix (map (\<lambda>n. ?m @ [n]) (sort ?cs))"
    by (simp add: sort_map_snoc distinct_children)
  also have "\<dots> = map (\<lambda>n. ?m @ [n]) ?ns"
    by (simp add: filter_map comp_def image_suffix_last)
  finally have im: "images = map (\<lambda>n. ?m @ [n]) ?ns" .
  have "sorted_list_of_set (set ?ns) = ?ns"
    by (rule sorted_list_of_set.idem_if_sorted_distinct)
       (simp_all add: distinct_children sorted_filter [where f = "\<lambda>x. x", simplified])
  moreover have "set ?ns = {n. image_suffix [n] \<and> path_exists (files w') (?m @ [n])}"
    by (auto simp: set_children)
  ultimately show ?thesis using im by simp
qed

lemma mkdirs_creates: "mkdirs qs t = Inr t' \<Longrightarrow> q \<in> set qs \<Longrightarrow> is_dir t' q"
proof (induction qs arbitrary: t)
  case Nil
  then show ?case by simp
next
  case (Cons a qs)
  show ?case
  proof (cases "q \<in> set qs")
    case True
    with Cons show ?thesis by (auto split: option.splits node.splits)
  next
    case False
    with Cons.prems(2) have qa: "q = a" by simp
    show ?thesis
    proof (cases "stat t a")
      case None
      with Cons.prems(1) have m: "mkdirs qs (put a Dir t) = Inr t'" by simp
      have "p = [] \<Longrightarrow> stat t p \<noteq> None" for p by (simp add: stat_def)
      with None have "a \<noteq> []" by blast
      then have "is_dir (put a Dir t) a" by (simp add: is_dir_def stat_put)
      with m show ?thesis unfolding qa by (rule mkdirs_keeps_dir)
    next
      case (Some n)
      with Cons.prems(1) have "n = Dir" and m: "mkdirs qs t = Inr t'"
        by (cases n; simp)+
      with Some have "is_dir t a" by (simp add: is_dir_def)
      with m show ?thesis unfolding qa by (rule mkdirs_keeps_dir)
    qed
  qed
qed

lemma self_in_tl_prefixes: "p \<noteq> [] \<Longrightarrow> p \<in> set (tl (prefixes p))"
  by (cases p) auto

lemma extract_member_upper:
  assumes "extract_member base m t = (None, t')"
  shows "path_exists t' (butlast (base @ member_path m))"
proof -
  let ?u = "butlast (base @ member_path m)"
  have keep: "path_exists t1 ?u \<Longrightarrow> path_exists t' ?u"
    if "(case m of ZDir p \<Rightarrow> (case mkdir_exist_ok (base @ member_path m) t1 of
                          Inl e \<Rightarrow> (Some e, t1) | Inr t2 \<Rightarrow> (None, t2))
                   | ZBad p \<Rightarrow> (Some BadZipFile, t1)
                   | ZFile p c \<Rightarrow> (case write_file (base @ member_path m) c t1 of
                          Inl e \<Rightarrow> (Some e, t1) | Inr t2 \<Rightarrow> (None, t2))) = (None, t')" for t1
    using that
    by (auto split: zip_member.splits sum.splits
             dest: write_file_keeps_exists mkdir_exist_ok_keeps_exists)
  show ?thesis
  proof (cases "path_exists t ?u")
    case True
    with assms keep [of t] show ?thesis
      by (auto simp: extract_member_def Let_def split: if_splits)
  next
    case False
    then have ne: "?u \<noteq> []" by (auto simp: path_exists_def stat_def)
    from False assms obtain t1 where mk: "makedirs ?u t = Inr t1"
      by (auto simp: extract_member_def Let_def split: if_splits sum.splits)
    then have "is_dir t1 ?u"
      unfolding makedirs_def using ne by (intro mkdirs_creates [where qs = "tl (prefixes ?u)"] self_in_tl_prefixes)
    then have "path_exists t1 ?u" by (simp add: is_dir_def path_exists_def)
    with False assms mk keep [of t1] show ?thesis
      by (auto simp: extract_member_def Let_def split: if_splits)
  qed
qed

lemma extractall_upper:
  "extractall base ms t = (None, t') \<Longrightarrow> m \<in> set ms
     \<Longrightarrow> path_exists t' (butlast (base @ member_path m))"
proof (induction ms arbitrary: t)
  case Nil
  then show ?case by simp
next
  case (Cons m' ms)
  obtain r1 t1 where em: "extract_member base m' t = (r1, t1)"
    by (cases "extract_member base m' t")
  with Cons.prems(1) have r1: "r1 = None" and rest: "extractall base ms t1 = (None, t')"
    by (cases r1; simp)+
  show ?case
  proof (cases "m = m'")
    case True
    with em r1 have "path_exists t1 (butlast (base @ member_path m))"
      by (simp add: extract_member_upper)
    with rest show ?thesis by (rule extractall_keeps_exists)
  next
    case False
    with Cons.prems(2) have "m \<in> set ms" by simp
    with Cons.IH rest show ?thesis by blast
  qed
qed

text \<open>A regular file after unpacking was there before or is a file member of the archive.\<close>

lemma mkdirs_file: "mkdirs qs t = Inr t' \<Longrightarrow> stat t' q = Some (File c) \<Longrightarrow> stat t q = Some (File c)"
proof (induction qs arbitrary: t)
  case Nil
  then show ?case by simp
next
  case (Cons a qs)
  show ?case
  proof (cases "stat t a")
    case None
    with Cons.prems(1) have "mkdirs qs (put a Dir t) = Inr t'" by simp
    then have "stat (put a Dir t) q = Some (File c)"
      using Cons.prems(2) by (rule Cons.IH)
    then show ?thesis by (simp add: stat_put split: if_splits)
  next
    case (Some n)
    with Cons.prems(1) have "mkdirs qs t = Inr t'" by (cases n) simp_all
    then show ?thesis using Cons.prems(2) by (rule Cons.IH)
  qed
qed

lemma extract_member_file:
  assumes "extract_member base m t = (r, t')" and "stat t' q = Some (File c)"
  shows "stat t q = Some (File c) \<or> (\<exists>p. m = ZFile p c \<and> q = base @ p)"
  using assms
  by (auto simp: extract_member_def Let_def makedirs_def mkdir_exist_ok_def write_file_def stat_put
           split: if_splits sum.splits zip_member.splits option.splits node.splits
           dest: mkdirs_file)

lemma extractall_file:
  "extractall base ms t = (r, t') \<Longrightarrow> stat t' q = Some (File c)
     \<Longrightarrow> stat t q = Some (File c) \<or> (\<exists>p. ZFile p c \<in> set ms \<and> q = base @ p)"
proof (induction ms arbitrary: t)
  case Nil
  then show ?case by simp
next
  case (Cons m ms)
  obtain r1 t1 where em: "extract_member base m t = (r1, t1)"
    by (cases "extract_member base m t")
  have "stat t1 q = Some (File c) \<or> (\<exists>p. ZFile p c \<in> set ms \<and> q = base @ p)"
  proof (cases r1)
    case None
    with em Cons.prems(1) have "extractall base ms t1 = (r, t')" by simp
    then show ?thesis using Cons.prems(2) by (rule Cons.IH)
  next
    case (Some e)
    with em Cons.prems show ?thesis by simp
  qed
  then show ?case
    using extract_member_file [OF em, of q c] by auto
qed

subsection \<open>The suffix test and the allow-list\<close>

text \<open>The code's suffix test is the specification's allow-list.\<close>

lemma rfind_dot_split: "CHR ''.'' \<notin> set e \<Longrightarrow> rfind_dot (base @ CHR ''.'' # e) = length base"
proof -
  assume e: "CHR ''.'' \<notin> set e"
  have "takeWhile (\<lambda>c. c \<noteq> CHR ''.'') (rev (base @ CHR ''.'' # e))
          = takeWhile (\<lambda>c. c \<noteq> CHR ''.'') (rev e @ CHR ''.'' # rev base)"
    by simp
  also have "\<dots> = takeWhile (\<lambda>c. c \<noteq> CHR ''.'') (rev e)"
    by (rule takeWhile_tail) simp
  also have "\<dots> = rev e"
    using e by (auto simp: takeWhile_eq_all_conv)
  finally show ?thesis by (simp add: rfind_dot_def)
qed

lemma suffix_of_split:
  "CHR ''.'' \<notin> set e \<Longrightarrow>
     suffix_of [base @ CHR ''.'' # e] = (if base \<noteq> [] \<and> e \<noteq> [] then CHR ''.'' # e else [])"
  by (auto simp: suffix_of_def name_def has_suffix_def rfind_dot_split)

lemma suffix_of_no_dot: "CHR ''.'' \<notin> set n \<Longrightarrow> suffix_of [n] = []"
  by (simp add: suffix_of_def name_def has_suffix_def)

lemma map_of_default_eq:
  assumes "distinct (map fst z)"
  shows "((case map_of z c of None \<Rightarrow> c | Some u \<Rightarrow> u) = l)
           = ((c, l) \<in> set z \<or> c = l \<and> l \<notin> fst ` set z)"
proof (cases "map_of z c")
  case None
  then have nf: "c \<notin> fst ` set z" by (rule iffD1 [OF map_of_eq_None_iff])
  then have "(c, l) \<notin> set z" by (metis fst_conv imageI)
  with None nf show ?thesis by auto
next
  case (Some u)
  then have "(c, u) \<in> set z" by (rule map_of_SomeD)
  then have "c \<in> fst ` set z" by (metis fst_conv imageI)
  moreover have "((c, l) \<in> set z) = (u = l)"
    using map_of_eq_Some_iff [OF assms, of c l] Some by auto
  ultimately show ?thesis using Some by auto
qed

lemma lower_char_eq:
  "(lower_char c = l) =
     ((c, l) \<in> set (zip ''ABCDEFGHIJKLMNOPQRSTUVWXYZ'' ''abcdefghijklmnopqrstuvwxyz'')
      \<or> c = l \<and> l \<notin> fst ` set (zip ''ABCDEFGHIJKLMNOPQRSTUVWXYZ'' ''abcdefghijklmnopqrstuvwxyz''))"
  unfolding lower_char_def by (rule map_of_default_eq) simp

lemma lower_char_letter:
  assumes "l \<in> set ''pngjeif''"
  shows "(lower_char c = l) = same_letter c l"
proof -
  from assms consider "l = CHR ''p''" | "l = CHR ''n''" | "l = CHR ''g''" | "l = CHR ''j''"
    | "l = CHR ''e''" | "l = CHR ''i''" | "l = CHR ''f''"
    by auto
  then show ?thesis
    by cases (auto simp: lower_char_eq same_letter_def)
qed

lemma lower_char_dot: "(lower_char c = CHR ''.'') = (c = CHR ''.'')"
  by (simp add: lower_char_eq)

lemma same_letter_dot: "same_letter c (CHR ''.'') = (c = CHR ''.'')"
  by (auto simp: same_letter_def)

lemma same_letter_not_dot: "l \<in> set ''pngjeif'' \<Longrightarrow> same_letter c l \<Longrightarrow> c \<noteq> CHR ''.''"
  by (auto simp: same_letter_def)

lemma lower_letters:
  "set ext \<subseteq> set ''pngjeif'' \<Longrightarrow> (lower e = ext) = list_all2 same_letter e ext"
proof (induction e arbitrary: ext)
  case Nil
  then show ?case by (auto simp: lower_def)
next
  case (Cons c e)
  show ?case
  proof (cases ext)
    case Nil
    then show ?thesis by (simp add: lower_def)
  next
    case (Cons l ls)
    with Cons.prems have l: "l \<in> set ''pngjeif''" and ls: "set ls \<subseteq> set ''pngjeif''"
      by auto
    have "(lower (c # e) = l # ls) = (lower_char c = l \<and> lower e = ls)"
      by (simp add: lower_def)
    also have "\<dots> = (same_letter c l \<and> list_all2 same_letter e ls)"
      using lower_char_letter [OF l] Cons.IH [OF ls] by simp
    finally show ?thesis using Cons by simp
  qed
qed

lemma letters_no_dot:
  "set ext \<subseteq> set ''pngjeif'' \<Longrightarrow> list_all2 same_letter e ext \<Longrightarrow> CHR ''.'' \<notin> set e"
proof (induction e arbitrary: ext)
  case Nil
  then show ?case by simp
next
  case (Cons c e)
  then obtain l ls where ext: "ext = l # ls" and cl: "same_letter c l" and r: "list_all2 same_letter e ls"
    by (auto simp: list_all2_Cons1)
  with Cons.prems(1) have l: "l \<in> set ''pngjeif''" and ls: "set ls \<subseteq> set ''pngjeif''"
    by auto
  from l cl have "c \<noteq> CHR ''.''" by (rule same_letter_not_dot)
  moreover from Cons.IH [OF ls r] have "CHR ''.'' \<notin> set e" .
  ultimately show ?case by simp
qed

lemma allow_list_letters:
  "ext \<in> set [''png'', ''jpg'', ''jpeg'', ''gif''] \<Longrightarrow> set ext \<subseteq> set ''pngjeif'' \<and> ext \<noteq> []"
  by auto

lemma image_suffix_allowed: "image_suffix [n] = allowed_extension n"
proof
  assume im: "image_suffix [n]"
  then have ne: "suffix_of [n] \<noteq> []"
    by (auto simp: image_suffix_def lower_def)
  then have "CHR ''.'' \<in> set n"
    using suffix_of_no_dot by blast
  then obtain base e where n: "n = base @ CHR ''.'' # e" and e: "CHR ''.'' \<notin> set e"
    by (meson split_list_last)
  with ne have b: "base \<noteq> []" and e0: "e \<noteq> []" and s: "suffix_of [n] = CHR ''.'' # e"
    by (auto simp: suffix_of_split split: if_splits)
  from im have "lower (CHR ''.'' # e) \<in> set [''.png'', ''.jpg'', ''.jpeg'', ''.gif'']"
    by (simp only: image_suffix_def s)
  then have "lower e \<in> set [''png'', ''jpg'', ''jpeg'', ''gif'']"
    by (auto simp: lower_def)
  then obtain ext where ext: "ext \<in> set [''png'', ''jpg'', ''jpeg'', ''gif'']"
    and le: "lower e = ext"
    by blast
  from ext have letters: "set ext \<subseteq> set ''pngjeif''" using allow_list_letters by blast
  with le have a2: "list_all2 same_letter e ext" by (simp add: lower_letters)
  then have len: "length e = length ext" by (rule list_all2_lengthD)
  have "length n - (length ext + 1) = length base" by (simp add: n len)
  then have "drop (length n - (length ext + 1)) n = CHR ''.'' # e" by (simp add: n)
  moreover have "length ext + 1 < length n" using b by (simp add: n len)
  ultimately have "length ext + 1 < length n
      \<and> list_all2 same_letter (drop (length n - (length ext + 1)) n) (CHR ''.'' # ext)"
    using a2 by (simp add: same_letter_dot)
  with ext show "allowed_extension n"
    unfolding allowed_extension_def list_ex_iff by blast
next
  assume "allowed_extension n"
  then obtain ext where ext: "ext \<in> set [''png'', ''jpg'', ''jpeg'', ''gif'']"
    and len: "length ext + 1 < length n"
    and a2: "list_all2 same_letter (drop (length n - (length ext + 1)) n) (CHR ''.'' # ext)"
    unfolding allowed_extension_def list_ex_iff by blast
  let ?k = "length n - (length ext + 1)"
  from ext have letters: "set ext \<subseteq> set ''pngjeif''" and ext0: "ext \<noteq> []"
    using allow_list_letters by blast+
  from a2 obtain d e where dr: "drop ?k n = d # e" and d: "same_letter d (CHR ''.'')"
    and e: "list_all2 same_letter e ext"
    by (auto simp: list_all2_Cons2)
  from d have d': "d = CHR ''.''" by (simp add: same_letter_dot)
  have n: "n = take ?k n @ CHR ''.'' # e"
    using dr d' by (metis append_take_drop_id)
  have b: "take ?k n \<noteq> []" using len by auto
  have nd: "CHR ''.'' \<notin> set e" using letters e by (rule letters_no_dot)
  have e0: "e \<noteq> []" using e ext0 by auto
  have "suffix_of [take ?k n @ CHR ''.'' # e] = CHR ''.'' # e"
    using nd b e0 by (simp add: suffix_of_split)
  with n have s: "suffix_of [n] = CHR ''.'' # e" by simp
  from e letters have "lower e = ext" by (simp add: lower_letters)
  moreover have "lower_char (CHR ''.'') = CHR ''.''" by (simp add: lower_char_dot)
  ultimately have lw: "lower (CHR ''.'' # e) = CHR ''.'' # ext"
    by (simp add: lower_def)
  have mem: "CHR ''.'' # ext \<in> set [''.png'', ''.jpg'', ''.jpeg'', ''.gif'']"
    using ext by auto
  show "image_suffix [n]"
    unfolding image_suffix_def s lw by (rule mem)
qed

subsection \<open>The media folder holds files\<close>

text \<open>The assets of such an archive, in the terms of the code's own suffix test.\<close>

lemma media_files_by_suffix:
  assumes "zipfile pptx_path = Inr ms"
    and "\<forall>m\<in>set ms. prefix [''ppt'', ''media''] (member_path m) \<longrightarrow>
           m = ZDir [''ppt'', ''media''] \<or> (\<exists>n c. m = ZFile [''ppt'', ''media'', n] c)"
    and "fst (extractall (output_dir @ [''temp_extract'']) ms (files w)) = None"
    and "absent (files w) (output_dir @ [''temp_extract''])"
  shows "fst (extract_images_from_pptx zipfile w pptx_path output_dir)
           = map (\<lambda>n. output_dir @ [''temp_extract'', ''ppt'', ''media'', n])
               (sorted_list_of_set
                  {n. image_suffix [n] \<and> (\<exists>c. ZFile [''ppt'', ''media'', n] c \<in> set ms)})
         \<and> length (fst (extract_images_from_pptx zipfile w pptx_path output_dir))
           = card {n. image_suffix [n] \<and> (\<exists>c. ZFile [''ppt'', ''media'', n] c \<in> set ms)}
         \<and> fst (snd (extract_images_from_pptx zipfile w pptx_path output_dir))
           = Some (output_dir @ [''temp_extract''])"
proof -
  let ?tmp = "temp_extract_of output_dir"
  let ?m = "media_dir_of output_dir"
  let ?S = "{n. image_suffix [n] \<and> (\<exists>c. ZFile [''ppt'', ''media'', n] c \<in> set ms)}"
  have tmp: "?tmp = output_dir @ [''temp_extract'']" by (simp add: temp_extract_of_def)
  have m: "?m = ?tmp @ [''ppt'', ''media'']" by (simp add: media_dir_of_def)
  have mn: "?m @ [n] = output_dir @ [''temp_extract'', ''ppt'', ''media'', n]" for n
    by (simp add: m tmp)
  obtain t1 where ea: "extractall ?tmp ms (files w) = (None, t1)"
    using assms(3) by (metis prod.collapse tmp)
  have before: "stat (files w) q = None" if "prefix ?tmp q" for q
  proof -
    from that have "q \<noteq> []" by (auto simp: tmp)
    with assms(4) that show ?thesis by (intro absent_stat [where d = ?tmp]) (simp_all add: tmp)
  qed
  have key: "path_exists t1 (?m @ [n]) \<longleftrightarrow> (\<exists>c. ZFile [''ppt'', ''media'', n] c \<in> set ms)" for n
  proof
    assume ex: "path_exists t1 (?m @ [n])"
    show "\<exists>c. ZFile [''ppt'', ''media'', n] c \<in> set ms"
    proof (rule ccontr)
      assume no: "\<not> (\<exists>c. ZFile [''ppt'', ''media'', n] c \<in> set ms)"
      have "\<not> prefix (?m @ [n]) (?tmp @ member_path x)" if x: "x \<in> set ms" for x
      proof
        assume "prefix (?m @ [n]) (?tmp @ member_path x)"
        then have p: "prefix [''ppt'', ''media'', n] (member_path x)" by (simp add: m)
        then have "prefix [''ppt'', ''media''] (member_path x)"
          by (metis append_Cons append_Nil append_prefixD)
        with assms(2) x have "x = ZDir [''ppt'', ''media''] \<or> (\<exists>n c. x = ZFile [''ppt'', ''media'', n] c)"
          by blast
        with p x no show False by auto
      qed
      with ea have "stat t1 (?m @ [n]) = stat (files w) (?m @ [n])"
        by (intro extractall_other [where ms = ms]) auto
      also have "\<dots> = None" by (rule before) (simp add: m)
      finally show False using ex by (simp add: path_exists_def)
    qed
  next
    assume "\<exists>c. ZFile [''ppt'', ''media'', n] c \<in> set ms"
    then obtain c where "ZFile [''ppt'', ''media'', n] c \<in> set ms" ..
    with ea have "path_exists t1 (?tmp @ member_path (ZFile [''ppt'', ''media'', n] c))"
      by (rule extractall_targets)
    then show "path_exists t1 (?m @ [n])" by (simp add: m)
  qed
  then have S: "{n. image_suffix [n] \<and> path_exists t1 (?m @ [n])} = ?S" by simp
  have res: "extract_images_from_pptx zipfile w pptx_path output_dir
               = (map (\<lambda>n. ?m @ [n]) (sorted_list_of_set ?S), Some ?tmp, w\<lparr>files := t1\<rparr>)"
  proof (cases "path_exists t1 ?m")
    case True
    have "stat t1 ?m \<noteq> Some (File c)" for c
    proof
      assume "stat t1 ?m = Some (File c)"
      with ea have "stat (files w) ?m = Some (File c) \<or> (\<exists>p. ZFile p c \<in> set ms \<and> ?m = ?tmp @ p)"
        by (rule extractall_file)
      moreover have "stat (files w) ?m = None" by (rule before) (simp add: m)
      ultimately have "ZFile [''ppt'', ''media''] c \<in> set ms" by (auto simp: m)
      with assms(2) show False by fastforce
    qed
    with True have "stat t1 ?m = Some Dir"
      by (cases "stat t1 ?m") (auto simp: path_exists_def intro: node.exhaust)
    with True have ex: "extract_images_from_pptx zipfile w pptx_path output_dir
               = (filter image_suffix (sort (map (\<lambda>n. ?m @ [n]) (children t1 ?m))), Some ?tmp, w\<lparr>files := t1\<rparr>)"
      using assms(1) ea by (simp add: extract_images_from_pptx_def Let_def m iterdir_def)
    have "path_exists (files (w\<lparr>files := t1\<rparr>)) ?m" using True by simp
    with ex have "filter image_suffix (sort (map (\<lambda>n. ?m @ [n]) (children t1 ?m)))
        = map (\<lambda>n. ?m @ [n])
           (sorted_list_of_set {n. image_suffix [n] \<and> path_exists (files (w\<lparr>files := t1\<rparr>)) (?m @ [n])})"
      by (rule extract_images_from_pptx_names)
    with ex S show ?thesis by simp
  next
    case False
    have empty: "?S = {}"
    proof (rule ccontr)
      assume "?S \<noteq> {}"
      then obtain n c where "ZFile [''ppt'', ''media'', n] c \<in> set ms" by blast
      with ea have "path_exists t1 (butlast (?tmp @ member_path (ZFile [''ppt'', ''media'', n] c)))"
        by (rule extractall_upper)
      then have "path_exists t1 ?m" by (simp add: m butlast_append)
      with False show False by simp
    qed
    from False have "extract_images_from_pptx zipfile w pptx_path output_dir
               = ([], Some ?tmp, w\<lparr>files := t1\<rparr>)"
      using assms(1) ea by (simp add: extract_images_from_pptx_def Let_def m)
    then show ?thesis unfolding empty by simp
  qed
  show ?thesis
    unfolding res by (simp add: mn tmp)
qed

text \<open>
  C5, as stated, fails on the code: the assets are read from the extraction directory,
  which is not new when an earlier call has left it behind. After a first archive that
  unpacks \<open>ppt/media/old.png\<close> and then fails, the archive with the two images \<open>a.png\<close>
  and \<open>b.jpg\<close> gets three assets.
\<close>

theorem stale_asset_among_media_files_counterexample:
  "deck_zip [''in'', ''deck.pptx'']
     = Inr [ZFile [''ppt'', ''media'', ''b.jpg''] ''B'', ZFile [''ppt'', ''media'', ''a.png''] ''A'',
            ZFile [''ppt'', ''media'', ''notes.xml''] ''N'']
   \<and> fst (convert_pptx_to_markdown leaky_zip converter_ok clock disk0
          [''in'', ''first.pptx''] [''out''] False) = Inr True
   \<and> fst (extract_images_from_pptx deck_zip
          (snd (convert_pptx_to_markdown leaky_zip converter_ok clock disk0
                  [''in'', ''first.pptx''] [''out''] False))
          [''in'', ''deck.pptx''] [''out''])
       = [[''out'', ''temp_extract'', ''ppt'', ''media'', ''a.png''],
          [''out'', ''temp_extract'', ''ppt'', ''media'', ''b.jpg''],
          [''out'', ''temp_extract'', ''ppt'', ''media'', ''old.png'']]"
  by code_simp

text \<open>
  C5, amended. Take an archive that can be unpacked and whose media folder holds regular
  files only (every member at or below \<open>ppt/media\<close> is the folder's own entry or a file
  directly in it), unpacked where nothing lies at or below \<open><output_dir>/temp_extract\<close>
  before the call. Then the assets returned are exactly the files of the media folder
  whose name ends in \<open>.png\<close>, \<open>.jpg\<close>, \<open>.jpeg\<close> or \<open>.gif\<close> in any mix of upper and lower
  case, each once, as paths in the unpacked media folder and in increasing order of
  their names; there are as many assets as such names.
\<close>

theorem media_files_returned_sorted:
  assumes "zipfile pptx_path = Inr ms"
    and "\<forall>m\<in>set ms. prefix [''ppt'', ''media''] (member_path m) \<longrightarrow>
           m = ZDir [''ppt'', ''media''] \<or> (\<exists>n c. m = ZFile [''ppt'', ''media'', n] c)"
    and "fst (extractall (output_dir @ [''temp_extract'']) ms (files w)) = None"
    and "absent (files w) (output_dir @ [''temp_extract''])"
  shows "fst (extract_images_from_pptx zipfile w pptx_path output_dir)
           = map (\<lambda>n. output_dir @ [''temp_extract'', ''ppt'', ''media'', n])
               (sorted_list_of_set
                  {n. allowed_extension n \<and> (\<exists>c. ZFile [''ppt'', ''media'', n] c \<in> set ms)})
         \<and> length (fst (extract_images_from_pptx zipfile w pptx_path output_dir))
           = card {n. allowed_extension n \<and> (\<exists>c. ZFile [''ppt'', ''media'', n] c \<in> set ms)}
         \<and> fst (snd (extract_images_from_pptx zipfile w pptx_path output_dir))
           = Some (output_dir @ [''temp_extract''])"
  using media_files_by_suffix [of zipfile pptx_path ms output_dir w] assms
  unfolding image_suffix_allowed by blast

theorem media_files_returned_sorted_witness:
  "mixed_zip [''in'', ''deck.pptx'']
     = Inr [ZFile [''ppt'', ''media'', ''d.jpg''] ''D'', ZFile [''ppt'', ''media'', ''b.jpeg''] ''B'',
            ZFile [''ppt'', ''media'', ''notes.xml''] ''N'', ZFile [''ppt'', ''media'', ''c.Gif''] ''C'',
            ZFile [''ppt'', ''media'', ''A.PNG''] ''A'', ZFile [''ppt'', ''media'', ''e.pngx''] ''E'',
            ZFile [''ppt'', ''media'', ''.png''] ''H'', ZFile [''ppt'', ''media'', ''f.png.bak''] ''F'',
            ZFile [''ppt'', ''media'', ''gif''] ''G'']
   \<and> absent (files disk0) [''out'', ''temp_extract'']
   \<and> fst (extract_images_from_pptx mixed_zip disk0 [''in'', ''deck.pptx''] [''out''])
       = [[''out'', ''temp_extract'', ''ppt'', ''media'', ''A.PNG''],
          [''out'', ''temp_extract'', ''ppt'', ''media'', ''b.jpeg''],
          [''out'', ''temp_extract'', ''ppt'', ''media'', ''c.Gif''],
          [''out'', ''temp_extract'', ''ppt'', ''media'', ''d.jpg'']]
   \<and> allowed_extension ''A.PNG'' \<and> allowed_extension ''b.jpeg''
   \<and> allowed_extension ''c.Gif'' \<and> allowed_extension ''d.jpg''
   \<and> \<not> allowed_extension ''notes.xml'' \<and> \<not> allowed_extension ''e.pngx''
   \<and> \<not> allowed_extension ''.png'' \<and> \<not> allowed_extension ''f.png.bak''
   \<and> \<not> allowed_extension ''gif''
   \<and> sorted_list_of_set {n. allowed_extension n \<and> (\<exists>c. ZFile [''ppt'', ''media'', n] c
         \<in> set [ZFile [''ppt'', ''media'', ''d.jpg''] ''D'', ZFile [''ppt'', ''media'', ''b.jpeg''] ''B'',
            ZFile [''ppt'', ''media'', ''notes.xml''] ''N'', ZFile [''ppt'', ''media'', ''c.Gif''] ''C'',
            ZFile [''ppt'', ''media'', ''A.PNG''] ''A'', ZFile [''ppt'', ''media'', ''e.pngx''] ''E'',
            ZFile [''ppt'', ''media'', ''.png''] ''H'', ZFile [''ppt'', ''media'', ''f.png.bak''] ''F'',
            ZFile [''ppt'', ''media'', ''gif''] ''G''])}
       = [''A.PNG'', ''b.jpeg'', ''c.Gif'', ''d.jpg'']"
proof -
  let ?ms = "[ZFile [''ppt'', ''media'', ''d.jpg''] ''D'', ZFile [''ppt'', ''media'', ''b.jpeg''] ''B'',
            ZFile [''ppt'', ''media'', ''notes.xml''] ''N'', ZFile [''ppt'', ''media'', ''c.Gif''] ''C'',
            ZFile [''ppt'', ''media'', ''A.PNG''] ''A'', ZFile [''ppt'', ''media'', ''e.pngx''] ''E'',
            ZFile [''ppt'', ''media'', ''.png''] ''H'', ZFile [''ppt'', ''media'', ''f.png.bak''] ''F'',
            ZFile [''ppt'', ''media'', ''gif''] ''G'']"
  let ?S = "{n. allowed_extension n \<and> (\<exists>c. ZFile [''ppt'', ''media'', n] c \<in> set ?ms)}"
  have z: "mixed_zip [''in'', ''deck.pptx''] = Inr ?ms"
    by (simp add: mixed_zip_def)
  have flat: "\<forall>m\<in>set ?ms. prefix [''ppt'', ''media''] (member_path m) \<longrightarrow>
           m = ZDir [''ppt'', ''media''] \<or> (\<exists>n c. m = ZFile [''ppt'', ''media'', n] c)"
    by simp
  have ok: "fst (extractall ([''out''] @ [''temp_extract'']) ?ms (files disk0)) = None"
    by code_simp
  have ab: "absent (files disk0) ([''out''] @ [''temp_extract''])"
    by code_simp
  have r: "fst (extract_images_from_pptx mixed_zip disk0 [''in'', ''deck.pptx''] [''out''])
       = [[''out'', ''temp_extract'', ''ppt'', ''media'', ''A.PNG''],
          [''out'', ''temp_extract'', ''ppt'', ''media'', ''b.jpeg''],
          [''out'', ''temp_extract'', ''ppt'', ''media'', ''c.Gif''],
          [''out'', ''temp_extract'', ''ppt'', ''media'', ''d.jpg'']]"
    by code_simp
  have yes: "allowed_extension ''A.PNG''" "allowed_extension ''b.jpeg''"
    "allowed_extension ''c.Gif''" "allowed_extension ''d.jpg''"
    by code_simp+
  have no: "\<not> allowed_extension ''notes.xml''" "\<not> allowed_extension ''e.pngx''"
    "\<not> allowed_extension ''.png''" "\<not> allowed_extension ''f.png.bak''"
    "\<not> allowed_extension ''gif''"
    by code_simp+
  have "fst (extract_images_from_pptx mixed_zip disk0 [''in'', ''deck.pptx''] [''out''])
          = map (\<lambda>n. [''out''] @ [''temp_extract'', ''ppt'', ''media'', n]) (sorted_list_of_set ?S)"
    using media_files_returned_sorted
        [of mixed_zip "[''in'', ''deck.pptx'']" ?ms "[''out'']" disk0] z flat ok ab
    by blast
  then have "map (\<lambda>n. [''out'', ''temp_extract'', ''ppt'', ''media'', n]) (sorted_list_of_set ?S)
          = map (\<lambda>n. [''out'', ''temp_extract'', ''ppt'', ''media'', n])
              [''A.PNG'', ''b.jpeg'', ''c.Gif'', ''d.jpg'']"
    by (simp add: r)
  then have "sorted_list_of_set ?S = [''A.PNG'', ''b.jpeg'', ''c.Gif'', ''d.jpg'']"
    by (rule map_injective) (simp add: inj_on_def)
  with z ab r yes no show ?thesis by simp
qed

subsection \<open>Copying the images\<close>

lemma copy2_file:
  assumes "stat t src = Some (File c)" and "\<not> is_dir t dst" and "is_dir t (butlast dst)"
  shows "copy2 src dst t = Inr (put dst (File c) t)"
  using assms by (simp add: copy2_def write_file_def is_dir_def)

text \<open>The copy loop on regular files with different names, none in the way.\<close>

lemma copy_images_ok:
  assumes "is_dir t img_dir" and "distinct (map name imgs)"
    and "\<forall>img\<in>set imgs. (\<exists>c. stat t img = Some (File c)) \<and> \<not> prefix img_dir img
           \<and> \<not> is_dir t (img_dir @ [name img])"
  shows "\<exists>t'. copy_images img_dir imgs t = (None, t')
           \<and> (\<forall>img\<in>set imgs. stat t' (img_dir @ [name img]) = stat t img)
           \<and> (\<forall>q. q \<notin> (\<lambda>i. img_dir @ [name i]) ` set imgs \<longrightarrow> stat t' q = stat t q)"
  using assms
proof (induction imgs arbitrary: t)
  case Nil
  then show ?case by simp
next
  case (Cons img imgs)
  let ?dst = "img_dir @ [name img]"
  from Cons.prems(3) obtain c where c: "stat t img = Some (File c)"
    and np: "\<not> prefix img_dir img" and nd: "\<not> is_dir t ?dst"
    by auto
  let ?t1 = "put ?dst (File c) t"
  have cp: "copy2 img ?dst t = Inr ?t1"
    using c nd Cons.prems(1) by (intro copy2_file) simp_all
  have s1: "stat ?t1 q = (if q = ?dst then Some (File c) else stat t q)" for q
    by (simp add: stat_put)
  have d1: "is_dir ?t1 img_dir"
    using Cons.prems(1) by (simp add: is_dir_def s1)
  have dn: "distinct (map name imgs)" and fresh: "name img \<notin> name ` set imgs"
    using Cons.prems(2) by auto
  have p1: "\<forall>i\<in>set imgs. (\<exists>c. stat ?t1 i = Some (File c)) \<and> \<not> prefix img_dir i
           \<and> \<not> is_dir ?t1 (img_dir @ [name i])"
  proof
    fix i assume i: "i \<in> set imgs"
    with Cons.prems(3) obtain ci where ci: "stat t i = Some (File ci)"
      and npi: "\<not> prefix img_dir i" and ndi: "\<not> is_dir t (img_dir @ [name i])"
      by auto
    from npi have "i \<noteq> ?dst" by auto
    moreover from i fresh have "name i \<noteq> name img" by (metis imageI)
    then have "img_dir @ [name i] \<noteq> ?dst" by simp
    ultimately show "(\<exists>c. stat ?t1 i = Some (File c)) \<and> \<not> prefix img_dir i
           \<and> \<not> is_dir ?t1 (img_dir @ [name i])"
      using ci npi ndi by (simp add: s1 is_dir_def)
  qed
  from Cons.IH [OF d1 dn p1] obtain t' where
    ci: "copy_images img_dir imgs ?t1 = (None, t')"
    and got: "\<forall>i\<in>set imgs. stat t' (img_dir @ [name i]) = stat ?t1 i"
    and rest: "\<forall>q. q \<notin> (\<lambda>i. img_dir @ [name i]) ` set imgs \<longrightarrow> stat t' q = stat ?t1 q"
    by blast
  have a: "copy_images img_dir (img # imgs) t = (None, t')"
    using cp ci by simp
  have "?dst \<notin> (\<lambda>i. img_dir @ [name i]) ` set imgs"
  proof
    assume "?dst \<in> (\<lambda>i. img_dir @ [name i]) ` set imgs"
    then obtain i where "i \<in> set imgs" and "name i = name img" by auto
    with fresh show False by (metis imageI)
  qed
  with rest have hd: "stat t' ?dst = stat t img" by (simp add: s1 c)
  have tl: "stat t' (img_dir @ [name i]) = stat t i" if "i \<in> set imgs" for i
  proof -
    from that Cons.prems(3) have "\<not> prefix img_dir i" by auto
    then have "i \<noteq> ?dst" by auto
    with got that show ?thesis by (simp add: s1)
  qed
  have b: "\<forall>i\<in>set (img # imgs). stat t' (img_dir @ [name i]) = stat t i"
    using hd tl by auto
  have c': "\<forall>q. q \<notin> (\<lambda>i. img_dir @ [name i]) ` set (img # imgs) \<longrightarrow> stat t' q = stat t q"
    using rest by (auto simp: s1)
  from a b c' show ?case by blast
qed

lemma name_snoc: "name (d @ [n]) = n"
  by (simp add: name_def)

text \<open>Assets found are direct entries of the unpacked media folder, with different names.\<close>

lemma extract_images_from_pptx_found:
  assumes "extract_images_from_pptx zipfile w pptx_path output_dir = (images, tmp, w')"
    and "images \<noteq> []"
  shows "distinct (map name images)"
    and "\<forall>img\<in>set images. prefix (temp_extract_of output_dir) img"
proof -
  let ?m = "media_dir_of output_dir"
  from assms obtain d where tmp: "tmp = Some d"
    by (cases tmp)
       (auto simp: extract_images_from_pptx_def Let_def split: sum.splits prod.splits option.splits if_splits)
  have ex: "path_exists (files w') ?m"
    using assms extract_images_from_pptx_no_media [OF assms(1) [unfolded tmp]] by blast
  from assms(1) [unfolded tmp] ex
  obtain ns where im: "images = map (\<lambda>n. ?m @ [n]) ns" and ns: "distinct ns"
    using extract_images_from_pptx_names distinct_sorted_list_of_set by blast
  show "distinct (map name images)"
    using ns by (simp add: im comp_def name_snoc)
  show "\<forall>img\<in>set images. prefix (temp_extract_of output_dir) img"
    by (auto simp: im media_dir_of_def)
qed

subsection \<open>The images folder\<close>

lemma img_entry_temp:
  "\<not> prefix (img_dir_of p out @ [n]) (temp_extract_of out)"
  "\<not> prefix (temp_extract_of out) (img_dir_of p out @ [n])"
  using img_name_neq_temp [of "stem p"]
  by (auto simp: img_dir_of_def temp_extract_of_def)

lemma img_entry_md_path:
  "img_dir_of p out \<noteq> md_path_of p out"
  "img_dir_of p out @ [n] \<noteq> md_path_of p out"
  by (auto simp: img_dir_of_def md_path_of_def)

text \<open>
  C8, as stated, fails on the code: an asset found may be a directory (the extractor looks
  at the suffix only), and \<^verbatim>\<open>shutil.copy2\<close> raises on it. With the retain-images flag
  set, on an archive whose media folder holds \<open>a.png\<close> and a directory \<open>x.png\<close>, both are
  found, the pipeline raises \<^verbatim>\<open>IsADirectoryError\<close> and \<open>x.png\<close> is not in the images
  folder.
\<close>

theorem directory_asset_not_copied_counterexample:
  "fst (extract_images_from_pptx nested_zip (print (Processing (name [''in'', ''deck.pptx''])) disk0)
          [''in'', ''deck.pptx''] [''out''])
     = [[''out'', ''temp_extract'', ''ppt'', ''media'', ''a.png''],
        [''out'', ''temp_extract'', ''ppt'', ''media'', ''x.png'']]
   \<and> fst (convert_pptx_to_markdown nested_zip converter_ok clock disk0
          [''in'', ''deck.pptx''] [''out''] True) = Inl IsADirectoryError
   \<and> stat (files (snd (convert_pptx_to_markdown nested_zip converter_ok clock disk0
          [''in'', ''deck.pptx''] [''out''] True))) [''out'', ''deck_images'', ''x.png''] = None"
  by code_simp

text \<open>
  C8, amended. With the retain-images flag set and at least one asset found, where every
  asset found is a regular file, the output directory is a directory, \<open><stem>_images\<close>
  is not a regular file and no directory stands where a copy goes: the copy raises
  nothing, and when the pipeline is left, with whatever result of the converter,
  \<open><stem>_images\<close> is a directory holding, under the asset's own name, the content of
  every asset found, whatever was there under that name before.
\<close>

theorem images_copied_to_output:
  assumes "keep_images"
    and "extract_images_from_pptx zipfile (print (Processing (name pptx_path)) w) pptx_path output_dir
           = (images, tmp, w1)"
    and "images \<noteq> []"
    and "\<forall>img\<in>set images. \<exists>c. stat (files w1) img = Some (File c)"
    and "is_dir (files w) output_dir"
    and "\<forall>c. stat (files w) (output_dir @ [stem pptx_path @ ''_images'']) \<noteq> Some (File c)"
    and "\<forall>img\<in>set images. \<not> is_dir (files w) (output_dir @ [stem pptx_path @ ''_images'', name img])"
  shows "reaches_converter zipfile w pptx_path output_dir keep_images
         \<and> is_dir (files (snd (convert_pptx_to_markdown zipfile markitdown date w pptx_path output_dir keep_images)))
              (output_dir @ [stem pptx_path @ ''_images''])
         \<and> (\<forall>img\<in>set images.
               stat (files (snd (convert_pptx_to_markdown zipfile markitdown date w pptx_path output_dir keep_images)))
                 (output_dir @ [stem pptx_path @ ''_images'', name img])
               = stat (files w1) img)"
proof -
  let ?w0 = "print (Processing (name pptx_path)) w"
  let ?d = "img_dir_of pptx_path output_dir"
  let ?tmp = "temp_extract_of output_dir"
  let ?md = "md_path_of pptx_path output_dir"
  have d: "?d = output_dir @ [stem pptx_path @ ''_images'']" by (simp add: img_dir_of_def)
  have dn: "?d @ [n] = output_dir @ [stem pptx_path @ ''_images'', n]" for n by (simp add: d)
  have f0: "files ?w0 = files w" by (simp add: print_def)
  note found = extract_images_from_pptx_found [OF assms(2,3)]
  \<comment> \<open>the state after unpacking, seen from the images folder\<close>
  have out1: "is_dir (files w1) output_dir"
    using assms(2) assms(5) [folded f0] by (rule extract_images_from_pptx_keeps_dir)
  have s1d: "stat (files w1) ?d = stat (files w) ?d"
    using extract_images_from_pptx_other [OF assms(2) img_dir_temp] by (simp add: f0)
  have s1e: "stat (files w1) (?d @ [n]) = stat (files w) (?d @ [n])" for n
    using extract_images_from_pptx_other [OF assms(2) img_entry_temp] by (simp add: f0)
  \<comment> \<open>the images folder is made\<close>
  have "\<exists>t1. mkdir_exist_ok ?d (files w1) = Inr t1"
    using assms(6) out1 s1d
    by (auto simp: mkdir_exist_ok_def d is_dir_def split: option.splits node.splits)
  then obtain t1 where mk: "mkdir_exist_ok ?d (files w1) = Inr t1" ..
  have dir1: "is_dir t1 ?d" using mk by (rule mkdir_exist_ok_same)
  have same1: "stat t1 q = stat (files w1) q" if "q \<noteq> ?d" for q
    using mk that by (rule mkdir_exist_ok_other)
  \<comment> \<open>the loop\<close>
  have pre: "\<forall>img\<in>set images. (\<exists>c. stat t1 img = Some (File c)) \<and> \<not> prefix ?d img
           \<and> \<not> is_dir t1 (?d @ [name img])"
  proof
    fix img assume i: "img \<in> set images"
    with found(2) have pt: "prefix ?tmp img" by blast
    have np: "\<not> prefix ?d img"
    proof
      assume "prefix ?d img"
      with pt have "prefix ?d ?tmp \<or> prefix ?tmp ?d"
        using prefix_same_cases by blast
      then show False by (simp add: img_dir_temp)
    qed
    then have "img \<noteq> ?d" by auto
    then have "stat t1 img = stat (files w1) img" by (rule same1)
    moreover have "stat t1 (?d @ [name img]) = stat (files w) (?d @ [name img])"
      using same1 [of "?d @ [name img]"] s1e by simp
    ultimately show "(\<exists>c. stat t1 img = Some (File c)) \<and> \<not> prefix ?d img
           \<and> \<not> is_dir t1 (?d @ [name img])"
      using assms(4,7) i np by (simp add: is_dir_def dn)
  qed
  from copy_images_ok [OF dir1 found(1) pre] obtain t2 where
    ci: "copy_images ?d images t1 = (None, t2)"
    and got: "\<forall>img\<in>set images. stat t2 (?d @ [name img]) = stat t1 img"
    and rest: "\<forall>q. q \<notin> (\<lambda>i. ?d @ [name i]) ` set images \<longrightarrow> stat t2 q = stat t1 q"
    by blast
  let ?w2 = "(print (FoundImages (length images) (name ?d)) (w1\<lparr>files := t1\<rparr>))\<lparr>files := t2\<rparr>"
  have cp: "copy_step w1 pptx_path output_dir keep_images images = (None, ?w2)"
    using assms(1,3) mk ci by (simp add: copy_step_def Let_def print_def)
  have rc: "reaches_converter zipfile w pptx_path output_dir keep_images"
    using assms(2) cp by (simp add: reaches_converter_def)
  have f2: "files ?w2 = t2" by (simp add: print_def)
  \<comment> \<open>conversion and removal leave the images folder alone\<close>
  obtain r w3 where cs: "convert_step markitdown date ?w2 pptx_path output_dir = (r, w3)"
    by (cases "convert_step markitdown date ?w2 pptx_path output_dir")
  have cv: "snd (convert_pptx_to_markdown zipfile markitdown date w pptx_path output_dir keep_images)
              = cleanup tmp w3"
    using convert_unfold [OF assms(2) cp, of markitdown date] cs by simp
  have fin: "stat (files (cleanup tmp w3)) q = stat t2 q"
    if "\<not> prefix ?tmp q" and "q \<noteq> ?md" for q
  proof -
    have "stat (files (cleanup tmp w3)) q = stat (files w3) q"
      using assms(2) that(1) by (rule cleanup_unrelated)
    also have "\<dots> = stat (files ?w2) q"
      using cs that(2) by (rule convert_step_other)
    finally show ?thesis by (simp add: f2)
  qed
  have "?d \<notin> (\<lambda>i. ?d @ [name i]) ` set images" by auto
  with rest dir1 have "is_dir t2 ?d" by (simp add: is_dir_def)
  then have a: "is_dir (files (cleanup tmp w3)) ?d"
    using fin [OF img_dir_temp(2) img_entry_md_path(1)] by (simp add: is_dir_def)
  have b: "stat (files (cleanup tmp w3)) (?d @ [name img]) = stat (files w1) img"
    if i: "img \<in> set images" for img
  proof -
    have "stat (files (cleanup tmp w3)) (?d @ [name img]) = stat t2 (?d @ [name img])"
      by (rule fin) (rule img_entry_temp(2), rule img_entry_md_path(2))
    also have "\<dots> = stat t1 img" using got i by blast
    also have "\<dots> = stat (files w1) img"
    proof (rule same1)
      from pre i have "\<not> prefix ?d img" by blast
      then show "img \<noteq> ?d" by auto
    qed
    finally show ?thesis .
  qed
  show ?thesis
    unfolding cv using rc a b by (simp add: d)
qed

theorem images_copied_to_output_witness:
  "fst (extract_images_from_pptx deck_zip (print (Processing (name [''in'', ''deck.pptx''])) disk0)
          [''in'', ''deck.pptx''] [''out''])
     = [[''out'', ''temp_extract'', ''ppt'', ''media'', ''a.png''],
        [''out'', ''temp_extract'', ''ppt'', ''media'', ''b.jpg'']]
   \<and> is_dir (files disk0) [''out'']
   \<and> reaches_converter deck_zip disk0 [''in'', ''deck.pptx''] [''out''] True
   \<and> is_dir (files (snd (convert_pptx_to_markdown deck_zip converter_ok clock disk0
          [''in'', ''deck.pptx''] [''out''] True))) [''out'', ''deck_images'']
   \<and> stat (files (snd (convert_pptx_to_markdown deck_zip converter_ok clock disk0
          [''in'', ''deck.pptx''] [''out''] True))) [''out'', ''deck_images'', ''a.png'']
       = Some (File ''A'')
   \<and> stat (files (snd (convert_pptx_to_markdown deck_zip converter_ok clock disk0
          [''in'', ''deck.pptx''] [''out''] True))) [''out'', ''deck_images'', ''b.jpg'']
       = Some (File ''B'')"
proof -
  let ?p = "[''in'', ''deck.pptx'']"
  let ?e = "extract_images_from_pptx deck_zip (print (Processing (name ?p)) disk0) ?p [''out'']"
  let ?imgs = "[[''out'', ''temp_extract'', ''ppt'', ''media'', ''a.png''],
        [''out'', ''temp_extract'', ''ppt'', ''media'', ''b.jpg'']]"
  have e: "?e = (?imgs, fst (snd ?e), snd (snd ?e))" by code_simp
  have ne: "?imgs \<noteq> []" by simp
  have sa: "stat (files (snd (snd ?e))) [''out'', ''temp_extract'', ''ppt'', ''media'', ''a.png'']
        = Some (File ''A'')" by code_simp
  have sb: "stat (files (snd (snd ?e))) [''out'', ''temp_extract'', ''ppt'', ''media'', ''b.jpg'']
        = Some (File ''B'')" by code_simp
  have reg: "\<forall>img\<in>set ?imgs. \<exists>c. stat (files (snd (snd ?e))) img = Some (File c)"
    using sa sb by simp
  have od: "is_dir (files disk0) [''out'']" by code_simp
  have st: "stem ?p = ''deck''" by code_simp
  have nf: "stat (files disk0) [''out'', ''deck_images''] = None" by code_simp
  have nf': "\<forall>c. stat (files disk0) ([''out''] @ [stem ?p @ ''_images'']) \<noteq> Some (File c)"
    using nf by (simp add: st)
  have n1: "\<not> is_dir (files disk0) [''out'', ''deck_images'', ''a.png'']" by code_simp
  have n2: "\<not> is_dir (files disk0) [''out'', ''deck_images'', ''b.jpg'']" by code_simp
  have nd: "\<forall>img\<in>set ?imgs. \<not> is_dir (files disk0) ([''out''] @ [stem ?p @ ''_images'', name img])"
    using n1 n2 by (simp add: st name_def)
  have fe: "fst ?e = ?imgs" using e by (metis fst_conv)
  show ?thesis
    using images_copied_to_output
        [of True deck_zip ?p disk0 "[''out'']" ?imgs "fst (snd ?e)" "snd (snd ?e)" converter_ok clock]
      e ne reg od nf' nd sa sb fe
    by (simp add: st name_def)
qed

end
